theory Spec2Isabelle
  imports Main "HOL-Library.Multiset"
begin

section \<open>JSON values, texts and errors\<close>

text \<open>
  The pipeline moves Python values obtained from \<^verbatim>\<open>json.loads\<close> between its stages:
  \<^verbatim>\<open>None\<close>, booleans, integers, floats, strings, lists and dicts with string keys.
  A dict is an association list in insertion order whose lookup takes the first entry
  of a key. A float is kept as the text of its literal: no property below computes
  with it.
\<close>

datatype json =
    JNull
  | JBool bool
  | JInt int
  | JFloat string
  | JStr string
  | JArr "json list"
  | JObj "(string \<times> json) list"

text \<open>
  A text is what a file holds or what the inference service answers. It is identified
  with its parse: \<open>JsonText j\<close> is the text \<^verbatim>\<open>json.dumps(j)\<close>, on which
  \<^verbatim>\<open>json.loads\<close> gives \<open>j\<close> back, and \<open>Unparseable s\<close> is any other content
  (the bytes of a PDF, a reply that is not JSON).
\<close>

datatype rawtext = JsonText json | Unparseable string

datatype error =
    ValidationError
  | JSONDecodeError
  | KeyError string
  | IndexError
  | TypeError
  | ValueError
  | TransportError string
  | HTTPException nat string

text \<open>What running a piece of the program leads to: a value, an exception, or no return.\<close>

datatype 'a outcome = Returns 'a | Raises error | Hangs

fun json_loads :: "rawtext \<Rightarrow> error + json" where
  "json_loads (JsonText j) = Inr j"
| "json_loads (Unparseable s) = Inl JSONDecodeError"

text \<open>\<^verbatim>\<open>d[k]\<close> on a value read from JSON: a missing key raises \<^verbatim>\<open>KeyError\<close>.\<close>

fun getitem :: "json \<Rightarrow> string \<Rightarrow> error + json" where
  "getitem (JObj kvs) k = (case map_of kvs k of None \<Rightarrow> Inl (KeyError k) | Some v \<Rightarrow> Inr v)"
| "getitem (JArr xs) k = Inl TypeError"
| "getitem (JStr s) k = Inl TypeError"
| "getitem j k = Inl TypeError"

text \<open>\<^verbatim>\<open>k in d\<close>: membership of a key in a dict, of an element in a list, of a
  substring in a string; the other values are not containers.\<close>

fun contains :: "json \<Rightarrow> string \<Rightarrow> error + bool" where
  "contains (JObj kvs) k = Inr (k \<in> set (map fst kvs))"
| "contains (JArr xs) k = Inr (JStr k \<in> set xs)"
| "contains (JStr s) k = Inr (\<exists>i \<in> set [0..<Suc (length s)]. take (length k) (drop i s) = k)"
| "contains j k = Inl TypeError"

text \<open>\<^verbatim>\<open>for x in v\<close>: a list gives its elements, a dict its keys, a string its
  characters; the other values are not iterable.\<close>

fun iterate :: "json \<Rightarrow> error + json list" where
  "iterate (JArr xs) = Inr xs"
| "iterate (JObj kvs) = Inr (map (\<lambda>kv. JStr (fst kv)) kvs)"
| "iterate (JStr s) = Inr (map (\<lambda>c. JStr [c]) s)"
| "iterate j = Inl TypeError"

text \<open>Truthiness of a value, as \<^verbatim>\<open>if not x\<close> reads it.\<close>

fun truthy :: "json \<Rightarrow> bool" where
  "truthy JNull = False"
| "truthy (JBool b) = b"
| "truthy (JInt n) = (n \<noteq> 0)"
| "truthy (JFloat s) = True"
| "truthy (JStr s) = (s \<noteq> [])"
| "truthy (JArr xs) = (xs \<noteq> [])"
| "truthy (JObj kvs) = (kvs \<noteq> [])"

section \<open>Schema registry: the pydantic models of utils/model.py\<close>

text \<open>
  A model class is a name, its \<^verbatim>\<open>model_config\<close> setting for undeclared fields and its
  fields in declaration order; a field has a name, an annotation and, unless it is
  required, a default. The validators of the primitive annotations \<^verbatim>\<open>str\<close>,
  \<^verbatim>\<open>float\<close> and \<^verbatim>\<open>bool\<close> belong to pydantic and are a parameter \<open>prim\<close> of
  validation: it gives the coerced value, or \<open>None\<close> when it rejects the input.
\<close>

datatype extra = Forbid | Ignore

datatype ptype = PStr | PFloat | PBool

datatype ftype =
    TPrim ptype
  | TOptional ftype
  | TList ftype
  | TModel schema
and schema = Schema (schema_name: string) (schema_extra: extra) (schema_fields: "field list")
and field = Field (field_name: string) (field_type: ftype) (field_default: "json option")

definition declared :: "schema \<Rightarrow> string list" where
  "declared S = map field_name (schema_fields S)"

text \<open>
  \<^verbatim>\<open>Model.model_validate(obj)\<close> followed by \<^verbatim>\<open>model_dump()\<close>: the input must be a dict;
  with \<^verbatim>\<open>extra="forbid"\<close> a key that is not a declared field is an error, with
  \<^verbatim>\<open>extra="ignore"\<close> it is left out; every declared field is validated against its
  annotation when present, and takes its default (or is an error, when required) when
  absent. The result lists the declared fields in declaration order.
\<close>

fun validate_type :: "(ptype \<Rightarrow> json \<Rightarrow> json option) \<Rightarrow> ftype \<Rightarrow> json \<Rightarrow> json option"
and validate_list :: "(ptype \<Rightarrow> json \<Rightarrow> json option) \<Rightarrow> ftype \<Rightarrow> json list \<Rightarrow> json list option"
and validate_model :: "(ptype \<Rightarrow> json \<Rightarrow> json option) \<Rightarrow> schema \<Rightarrow> json \<Rightarrow> json option"
and validate_fields :: "(ptype \<Rightarrow> json \<Rightarrow> json option) \<Rightarrow> field list \<Rightarrow> (string \<times> json) list
                        \<Rightarrow> (string \<times> json) list option"
where
  "validate_type prim (TPrim p) j = prim p j"
| "validate_type prim (TOptional t) j = (if j = JNull then Some JNull else validate_type prim t j)"
| "validate_type prim (TList t) j =
     (case j of JArr xs \<Rightarrow> map_option JArr (validate_list prim t xs) | _ \<Rightarrow> None)"
| "validate_type prim (TModel S) j = validate_model prim S j"
| "validate_list prim t [] = Some []"
| "validate_list prim t (x # xs) =
     (case validate_type prim t x of
        None \<Rightarrow> None
      | Some y \<Rightarrow> map_option (Cons y) (validate_list prim t xs))"
| "validate_model prim (Schema n ex fs) j =
     (case j of
        JObj kvs \<Rightarrow>
          (if ex = Forbid \<and> (\<exists>k \<in> set (map fst kvs). k \<notin> set (map field_name fs)) then None
           else map_option JObj (validate_fields prim fs kvs))
      | _ \<Rightarrow> None)"
| "validate_fields prim [] kvs = Some []"
| "validate_fields prim (Field k t d # fs) kvs =
     (case map_of kvs k of
        Some v \<Rightarrow>
          (case validate_type prim t v of
             None \<Rightarrow> None
           | Some v' \<Rightarrow> map_option (Cons (k, v')) (validate_fields prim fs kvs))
      | None \<Rightarrow>
          (case d of
             None \<Rightarrow> None
           | Some dv \<Rightarrow> map_option (Cons (k, dv)) (validate_fields prim fs kvs)))"

definition model_validate :: "(ptype \<Rightarrow> json \<Rightarrow> json option) \<Rightarrow> schema \<Rightarrow> json \<Rightarrow> error + json" where
  "model_validate prim S obj =
     (case validate_model prim S obj of None \<Rightarrow> Inl ValidationError | Some v \<Rightarrow> Inr v)"

text \<open>
  The two deployment surfaces carry their own copy of the model classes:
  \<^verbatim>\<open>utils/model.py\<close>, used by the command-line pipeline, sets \<^verbatim>\<open>extra="forbid"\<close> on
  every class, and \<^verbatim>\<open>backend/utils/model.py\<close>, used by the HTTP backend, sets
  \<^verbatim>\<open>extra="ignore"\<close> on every class. The copies declare the same fields except for
  \<^verbatim>\<open>CategorywithItems.note\<close>. Each class below takes the module it is read from.
\<close>

datatype module = Utils_model | Backend_utils_model

fun model_config :: "module \<Rightarrow> extra" where
  "model_config Utils_model = Forbid"
| "model_config Backend_utils_model = Ignore"

definition str :: ftype where
  "str = TPrim PStr"

definition Money :: "module \<Rightarrow> schema" where
  "Money m = Schema ''Money'' (model_config m)
     [Field ''amount'' (TPrim PFloat) None,
      Field ''currency'' (TOptional str) (Some JNull)]"

definition PriceByVariation :: "module \<Rightarrow> schema" where
  "PriceByVariation m = Schema ''PriceByVariation'' (model_config m)
     [Field ''variation_name'' str None,
      Field ''price'' (TOptional (TModel (Money m))) (Some JNull)]"

definition SubcategoryRef :: "module \<Rightarrow> schema" where
  "SubcategoryRef m = Schema ''SubcategoryRef'' (model_config m)
     [Field ''name_raw'' str None]"

definition CategoryRef :: "module \<Rightarrow> schema" where
  "CategoryRef m = Schema ''CategoryRef'' (model_config m)
     [Field ''name_raw'' str None,
      Field ''subcategories'' (TList (TModel (SubcategoryRef m))) (Some (JArr []))]"

definition Categories :: "module \<Rightarrow> schema" where
  "Categories m = Schema ''Categories'' (model_config m)
     [Field ''categories'' (TList (TModel (CategoryRef m))) (Some (JArr []))]"

definition Variation :: "module \<Rightarrow> schema" where
  "Variation m = Schema ''Variation'' (model_config m)
     [Field ''name_raw'' str None,
      Field ''price'' (TOptional (TModel (Money m))) (Some JNull),
      Field ''size'' (TOptional str) (Some JNull)]"

definition Item :: "module \<Rightarrow> schema" where
  "Item m = Schema ''Item'' (model_config m)
     [Field ''name_raw'' str None,
      Field ''description_raw'' (TOptional str) (Some JNull),
      Field ''variations'' (TList (TModel (Variation m))) (Some (JArr [])),
      Field ''base_price'' (TOptional (TModel (Money m))) (Some JNull),
      Field ''size'' (TOptional str) (Some JNull)]"

definition CategoryItems :: "module \<Rightarrow> schema" where
  "CategoryItems m = Schema ''CategoryItems'' (model_config m)
     [Field ''items'' (TList (TModel (Item m))) (Some (JArr [])),
      Field ''description_raw'' (TOptional str) (Some JNull)]"

definition SubcategoryItems :: "module \<Rightarrow> schema" where
  "SubcategoryItems m = Schema ''SubcategoryItems'' (model_config m)
     [Field ''name_raw'' str None,
      Field ''items'' (TList (TModel (Item m))) (Some (JArr [])),
      Field ''description_raw'' (TOptional str) (Some JNull)]"

text \<open>\<^verbatim>\<open>note: str\<close> is required in \<^verbatim>\<open>utils/model.py\<close>; the backend's copy has
  \<^verbatim>\<open>note: Optional[str] = "No notes provided"\<close>.\<close>

fun note_field :: "module \<Rightarrow> field" where
  "note_field Utils_model = Field ''note'' str None"
| "note_field Backend_utils_model =
     Field ''note'' (TOptional str) (Some (JStr ''No notes provided''))"

definition CategorywithItems :: "module \<Rightarrow> schema" where
  "CategorywithItems m = Schema ''CategorywithItems'' (model_config m)
     [Field ''name_raw'' str None,
      Field ''category_items'' (TList (TModel (CategoryItems m))) (Some (JArr [])),
      Field ''subcategory_items'' (TList (TModel (SubcategoryItems m))) (Some (JArr [])),
      note_field m]"

definition BaseOption :: "module \<Rightarrow> schema" where
  "BaseOption m = Schema ''BaseOption'' (model_config m)
     [Field ''name_raw'' str None,
      Field ''price'' (TOptional (TModel (Money m))) (Some JNull),
      Field ''default'' (TPrim PBool) (Some (JBool False)),
      Field ''price_by_variation'' (TOptional (TList (TModel (PriceByVariation m)))) (Some JNull)]"

definition CategoryBase :: "module \<Rightarrow> schema" where
  "CategoryBase m = Schema ''CategoryBase'' (model_config m)
     [Field ''name_raw'' str None,
      Field ''base_options'' (TOptional (TList (TModel (BaseOption m)))) (Some (JArr [])),
      Field ''subcategories_base'' (TOptional (TList (TModel (BaseOption m)))) (Some (JArr []))]"

definition AddonOption :: "module \<Rightarrow> schema" where
  "AddonOption m = Schema ''AddonOption'' (model_config m)
     [Field ''name_raw'' str None,
      Field ''default'' (TPrim PBool) (Some (JBool False)),
      Field ''price'' (TOptional (TModel (Money m))) (Some JNull),
      Field ''price_by_variation'' (TOptional (TList (TModel (PriceByVariation m)))) (Some (JArr []))]"

definition ItemsAddons :: "module \<Rightarrow> schema" where
  "ItemsAddons m = Schema ''ItemsAddons'' (model_config m)
     [Field ''name_raw'' str None,
      Field ''addons'' (TList (TModel (AddonOption m))) (Some (JArr []))]"

definition SubcategoryAddons :: "module \<Rightarrow> schema" where
  "SubcategoryAddons m = Schema ''SubcategoryAddons'' (model_config m)
     [Field ''name_raw'' str None,
      Field ''items_addons'' (TOptional (TList (TModel (ItemsAddons m)))) (Some (JArr []))]"

definition CategoryItemAddons :: "module \<Rightarrow> schema" where
  "CategoryItemAddons m = Schema ''CategoryItemAddons'' (model_config m)
     [Field ''name_raw'' str None,
      Field ''subcategory_items'' (TOptional (TList (TModel (SubcategoryAddons m)))) (Some (JArr [])),
      Field ''items_addons'' (TOptional (TList (TModel (ItemsAddons m)))) (Some (JArr []))]"

text \<open>The output schema of each of the four stages, in stage order.\<close>

definition stage_schemas :: "module \<Rightarrow> schema list" where
  "stage_schemas m = [Categories m, CategorywithItems m, CategoryBase m, CategoryItemAddons m]"

text \<open>A schema is uniform in a setting when its class and every class it refers to,
  at any depth, has that setting for undeclared fields, and no class declares a field
  name twice.\<close>

fun uniform_type :: "extra \<Rightarrow> ftype \<Rightarrow> bool"
and uniform :: "extra \<Rightarrow> schema \<Rightarrow> bool"
and uniform_fields :: "extra \<Rightarrow> field list \<Rightarrow> bool"
where
  "uniform_type ex (TPrim p) = True"
| "uniform_type ex (TOptional t) = uniform_type ex t"
| "uniform_type ex (TList t) = uniform_type ex t"
| "uniform_type ex (TModel S) = uniform ex S"
| "uniform ex (Schema n ex' fs) =
     (ex' = ex \<and> distinct (map field_name fs) \<and> uniform_fields ex fs)"
| "uniform_fields ex [] = True"
| "uniform_fields ex (Field k t d # fs) = (uniform_type ex t \<and> uniform_fields ex fs)"

text \<open>
  An object with one more field that is not declared at its place:
  \<open>extra_field_model S obj obj'\<close> holds when \<open>obj'\<close> is \<open>obj\<close> with one entry added
  whose key the class \<open>S\<close> does not declare (\<open>here\<close>), or when \<open>obj'\<close> differs
  from \<open>obj\<close> in the value of one declared field of \<open>S\<close>, where that value has got
  such a field according to the field's annotation (\<open>inside\<close>): in a model object,
  in the value of an optional annotation, or in one element of a list.
\<close>

inductive extra_field :: "ftype \<Rightarrow> json \<Rightarrow> json \<Rightarrow> bool"
      and extra_field_model :: "schema \<Rightarrow> json \<Rightarrow> json \<Rightarrow> bool"
where
  here: "k \<notin> set (declared S) \<Longrightarrow>
         extra_field_model S (JObj (xs @ ys)) (JObj (xs @ (k, v) # ys))"
| inside: "Field f t d \<in> set (schema_fields S) \<Longrightarrow> f \<notin> set (map fst xs) \<Longrightarrow>
           extra_field t u u' \<Longrightarrow>
           extra_field_model S (JObj (xs @ (f, u) # ys)) (JObj (xs @ (f, u') # ys))"
| model: "extra_field_model S v v' \<Longrightarrow> extra_field (TModel S) v v'"
| optional: "extra_field t v v' \<Longrightarrow> extra_field (TOptional t) v v'"
| element: "extra_field t u u' \<Longrightarrow>
            extra_field (TList t) (JArr (us @ u # ws)) (JArr (us @ u' # ws))"

text \<open>A validator of the primitive annotations that accepts a value of the annotated
  type only, for evaluating the definitions on concrete inputs.\<close>

fun exact_prim :: "ptype \<Rightarrow> json \<Rightarrow> json option" where
  "exact_prim PStr (JStr s) = Some (JStr s)"
| "exact_prim PFloat (JFloat x) = Some (JFloat x)"
| "exact_prim PBool (JBool b) = Some (JBool b)"
| "exact_prim p j = None"

section \<open>Bounded fan-out executor (main.py, bounded\_gather)\<close>

text \<open>
  \<^verbatim>\<open>
  async def bounded_gather(coros, limit):
      sem = asyncio.Semaphore(limit)
      async def _run(coro):
          async with sem:
              return await coro
      return await asyncio.gather(*(_run(c) for c in coros))
  \<close>
  The event loop starts the wrapped tasks in submission order. A task is waiting until
  it has acquired the semaphore, then in flight until its coroutine is over; leaving the
  \<^verbatim>\<open>async with\<close> block gives the slot back whether the coroutine returned or raised.
  The semaphore is fair: waiting tasks acquire it in the order in which they arrived.
  Which task in flight is over next is decided outside the program (by the inference
  service); it is the parameter \<open>order\<close>, a list of choices, one per completion, the
  choice \<open>c\<close> picking the task at position \<open>c mod n\<close> among the \<open>n\<close> tasks in flight
  (the first one when the list is used up).
\<close>

text \<open>Every waiting task acquires a slot, in order, as long as the semaphore's value is
  positive.\<close>

fun admit :: "nat \<Rightarrow> 'a list \<Rightarrow> 'a list \<Rightarrow> nat \<times> 'a list \<times> 'a list" where
  "admit sem [] running = (sem, [], running)"
| "admit sem (t # waiting) running =
     (if 0 < sem then admit (sem - 1) waiting (running @ [t]) else (sem, t # waiting, running))"

text \<open>The state of the executor each time a task in flight is over: the semaphore's
  value, the tasks in flight (including the one that is over now), and that task.\<close>

record 'a snapshot =
  sem_value :: nat
  in_flight :: "'a list"
  completes :: 'a

definition pick :: "nat list \<Rightarrow> nat \<Rightarrow> nat" where
  "pick order n = (case order of [] \<Rightarrow> 0 | c # _ \<Rightarrow> c mod n)"

lemma pick_less: "0 < n \<Longrightarrow> pick order n < n"
  by (simp add: pick_def split: list.splits)

lemma admit_size:
  "admit sem waiting running = (sem', waiting', running') \<Longrightarrow>
   length waiting' + length running' = length waiting + length running"
  by (induction sem waiting running rule: admit.induct) (auto split: if_splits)

text \<open>
  The run of a batch: admit, let one task in flight finish and release its slot, repeat.
  The run is over when nothing is in flight and nothing waits; it gives the snapshots
  and the final value of the semaphore. When nothing is in flight and a task still
  waits, no task can ever proceed: the result is \<open>None\<close>.
\<close>

function run_tasks :: "nat list \<Rightarrow> nat \<Rightarrow> 'a list \<Rightarrow> 'a list \<Rightarrow> ('a snapshot list \<times> nat) option" where
  "run_tasks order sem waiting running =
     (case admit sem waiting running of
        (sem', waiting', running') \<Rightarrow>
          if running' = [] then (if waiting' = [] then Some ([], sem') else None)
          else
            let k = pick order (length running') in
            (case run_tasks (tl order) (Suc sem') waiting'
                    (take k running' @ drop (Suc k) running') of
               None \<Rightarrow> None
             | Some (trace, sem_end) \<Rightarrow>
                 Some (\<lparr>sem_value = sem', in_flight = running', completes = running' ! k\<rparr> # trace,
                       sem_end)))"
  by pat_completeness auto
termination
proof (relation "measure (\<lambda>(order, sem, waiting, running). length waiting + length running)",
       goal_cases)
  case 1
  show ?case by simp
next
  case (2 order sem waiting running x y xa ya xb)
  then have adm: "admit sem waiting running = (x, xa, ya)" by simp
  from 2 have "0 < length ya" by simp
  then have "pick order (length ya) < length ya" by (rule pick_less)
  with admit_size [OF adm] 2 show ?case by simp
qed

declare run_tasks.simps [simp del]

text \<open>
  \<^verbatim>\<open>asyncio.gather\<close> without \<^verbatim>\<open>return_exceptions\<close>: the first exception, in the order
  in which the tasks are over, is raised to the caller; the other tasks keep running
  and their results are not delivered. When every task has returned, the result is the
  list of the tasks' results in submission order. A finished task is its submission
  index with what its coroutine did.
\<close>

fun first_exception :: "(nat \<times> (error + 'a)) list \<Rightarrow> error option" where
  "first_exception [] = None"
| "first_exception ((i, Inl e) # finished) = Some e"
| "first_exception ((i, Inr x) # finished) = first_exception finished"

fun collect :: "(nat \<rightharpoonup> (error + 'a)) \<Rightarrow> nat list \<Rightarrow> 'a list outcome" where
  "collect result [] = Returns []"
| "collect result (i # children) =
     (case result i of
        None \<Rightarrow> Hangs
      | Some (Inl e) \<Rightarrow> Raises e
      | Some (Inr x) \<Rightarrow>
          (case collect result children of
             Returns xs \<Rightarrow> Returns (x # xs)
           | Raises e \<Rightarrow> Raises e
           | Hangs \<Rightarrow> Hangs))"

definition gather_result :: "nat \<Rightarrow> (nat \<times> (error + 'a)) list \<Rightarrow> 'a list outcome" where
  "gather_result n finished =
     (case first_exception finished of
        Some e \<Rightarrow> Raises e
      | None \<Rightarrow> collect (map_of finished) [0..<n])"

text \<open>The run of the batch \<open>coros\<close> under the limit; \<^verbatim>\<open>asyncio.Semaphore\<close> refuses a
  negative initial value with \<^verbatim>\<open>ValueError\<close>.\<close>

definition gather_run ::
  "nat list \<Rightarrow> (error + 'a) list \<Rightarrow> int \<Rightarrow> ((nat \<times> (error + 'a)) snapshot list \<times> nat) option" where
  "gather_run order coros limit =
     run_tasks order (nat limit) (zip [0..<length coros] coros) []"

definition bounded_gather :: "nat list \<Rightarrow> (error + 'a) list \<Rightarrow> int \<Rightarrow> 'a list outcome" where
  "bounded_gather order coros limit =
     (if limit < 0 then Raises ValueError
      else case gather_run order coros limit of
             None \<Rightarrow> Hangs
           | Some (trace, sem_end) \<Rightarrow> gather_result (length coros) (map completes trace))"

section \<open>Configuration (main.py, MAX\_CONCURRENCY)\<close>

text \<open>
  \<^verbatim>\<open>MAX_CONCURRENCY = int(os.getenv("MAX_CONCURRENCY", "4"))\<close>.
  \<^verbatim>\<open>int\<close> of a string, in base ten: whitespace around the number is dropped, a sign may
  come first, then digits, where one underscore may stand between two digits; anything
  else is a \<^verbatim>\<open>ValueError\<close>, and so is a number of more than 4300 digits (the
  interpreter's limit \<^verbatim>\<open>sys.int_max_str_digits\<close>, which the program leaves at its
  default). A character is a code point below 256: the digits are the ASCII ones, and
  the whitespace that \<^verbatim>\<open>int\<close> drops is tab, line feed, vertical tab, form feed, carriage
  return, space, next line (0x85) and no-break space (0xA0); the separators 0x1C to
  0x1F are not dropped.
\<close>

definition is_space :: "char \<Rightarrow> bool" where
  "is_space c = (of_char c \<in> set [9, 10, 11, 12, 13, 32, 133, 160 :: nat])"

definition strip :: "string \<Rightarrow> string" where
  "strip s = rev (dropWhile is_space (rev (dropWhile is_space s)))"

definition digit_of :: "char \<Rightarrow> nat option" where
  "digit_of c = (let n = of_char c :: nat in if 48 \<le> n \<and> n \<le> 57 then Some (n - 48) else None)"

fun after_digit :: "nat \<Rightarrow> string \<Rightarrow> nat option" where
  "after_digit acc [] = Some acc"
| "after_digit acc [c] =
     (case digit_of c of None \<Rightarrow> None | Some v \<Rightarrow> Some (10 * acc + v))"
| "after_digit acc (c # d # cs) =
     (if c = CHR ''_'' then
        (case digit_of d of None \<Rightarrow> None | Some v \<Rightarrow> after_digit (10 * acc + v) cs)
      else
        (case digit_of c of None \<Rightarrow> None | Some v \<Rightarrow> after_digit (10 * acc + v) (d # cs)))"

fun unsigned :: "string \<Rightarrow> nat option" where
  "unsigned [] = None"
| "unsigned (c # cs) = (case digit_of c of None \<Rightarrow> None | Some v \<Rightarrow> after_digit v cs)"

text \<open>The limit on the number of digits; underscores do not count.\<close>

definition int_max_str_digits :: nat where
  "int_max_str_digits = 4300"

definition digit_count :: "string \<Rightarrow> nat" where
  "digit_count s = length (filter (\<lambda>c. c \<noteq> CHR ''_'') s)"

definition limited :: "string \<Rightarrow> nat option" where
  "limited s = (if int_max_str_digits < digit_count s then None else unsigned s)"

definition py_int :: "string \<Rightarrow> error + int" where
  "py_int s =
     (case strip s of
        [] \<Rightarrow> Inl ValueError
      | c # cs \<Rightarrow>
          if c = CHR ''-'' then
            (case limited cs of None \<Rightarrow> Inl ValueError | Some n \<Rightarrow> Inr (- int n))
          else if c = CHR ''+'' then
            (case limited cs of None \<Rightarrow> Inl ValueError | Some n \<Rightarrow> Inr (int n))
          else
            (case limited (c # cs) of None \<Rightarrow> Inl ValueError | Some n \<Rightarrow> Inr (int n)))"

text \<open>\<^verbatim>\<open>os.getenv(key, default)\<close> on the process environment.\<close>

definition getenv :: "(string \<rightharpoonup> string) \<Rightarrow> string \<Rightarrow> string \<Rightarrow> string" where
  "getenv environ key dflt = (case environ key of None \<Rightarrow> dflt | Some v \<Rightarrow> v)"

definition MAX_CONCURRENCY :: "(string \<rightharpoonup> string) \<Rightarrow> error + int" where
  "MAX_CONCURRENCY environ = py_int (getenv environ ''MAX_CONCURRENCY'' ''4'')"

text \<open>The decimal numeral of a natural number, as an operator writes it.\<close>

definition digit_char :: "nat \<Rightarrow> char" where
  "digit_char d = char_of (48 + d)"

fun decimal :: "nat \<Rightarrow> string" where
  "decimal n = (if n < 10 then [digit_char n] else decimal (n div 10) @ [digit_char (n mod 10)])"

declare decimal.simps [simp del]

text \<open>Strings of decimal digits, and the number such a string denotes after an
  accumulated prefix.\<close>

definition digits :: "string \<Rightarrow> bool" where
  "digits s = (\<forall>c \<in> set s. \<exists>d < 10. c = digit_char d)"

definition numeral_value :: "nat \<Rightarrow> string \<Rightarrow> nat" where
  "numeral_value acc s = foldl (\<lambda>a c. 10 * a + (of_char c - 48)) acc s"

section \<open>Inference gateway and prompts (main.py)\<close>

text \<open>
  A prompt is the name of its template and the variables given to
  \<^verbatim>\<open>render_prompt\<close>; a variable that the source passes as \<^verbatim>\<open>json.dumps(to_dict(x))\<close> is
  the value \<open>x\<close> itself (\<^verbatim>\<open>to_dict\<close> is \<^verbatim>\<open>model_dump\<close> on a validated model and leaves
  plain JSON data as it is, and validated models are kept in dumped form here). A
  request is what \<^verbatim>\<open>call_openrouter\<close> sends: the prompt, the page image and the schema of
  the response format. The inference service is the parameter \<open>llm\<close>: it gives the
  content of the reply, or the exception of the call.
\<close>

datatype prompt = Prompt (template: string) (variables: "(string \<times> json) list")

record request =
  prompt :: prompt
  image :: string
  response_format :: schema

definition phase1_prompt :: "string \<Rightarrow> json \<Rightarrow> prompt" where
  "phase1_prompt restaurant_name page_number =
     Prompt ''phase1.j2''
       [(''restaurant_name'', JStr restaurant_name), (''page_number'', page_number)]"

definition phase2_prompt :: "string \<Rightarrow> json \<Rightarrow> json \<Rightarrow> prompt" where
  "phase2_prompt restaurant_name page_number category =
     Prompt ''phase2.j2''
       [(''restaurant_name'', JStr restaurant_name), (''page_number'', page_number),
        (''categories'', category)]"

definition phase3_prompt :: "string \<Rightarrow> json \<Rightarrow> json \<Rightarrow> prompt" where
  "phase3_prompt restaurant_name page_number category =
     Prompt ''phase3.j2''
       [(''restaurant_name'', JStr restaurant_name), (''page_number'', page_number),
        (''category'', category)]"

definition phase4_prompt :: "string \<Rightarrow> json \<Rightarrow> json \<Rightarrow> json \<Rightarrow> prompt" where
  "phase4_prompt restaurant_name page_number category category_base =
     Prompt ''phase4.j2''
       [(''restaurant_name'', JStr restaurant_name), (''page_number'', page_number),
        (''category'', category), (''category_base'', category_base)]"

definition call_openrouter :: "prompt \<Rightarrow> string \<Rightarrow> schema \<Rightarrow> request" where
  "call_openrouter p img fmt = \<lparr>prompt = p, image = img, response_format = fmt\<rparr>"

text \<open>\<^verbatim>\<open>images[page_number - 1]\<close>: the subtraction needs an integer (a boolean counts as
  one), and a negative index counts from the end of the list.\<close>

fun minus_one :: "json \<Rightarrow> error + int" where
  "minus_one (JInt n) = Inr (n - 1)"
| "minus_one (JBool b) = Inr ((if b then 1 else 0) - 1)"
| "minus_one j = Inl TypeError"

definition getindex :: "'a list \<Rightarrow> int \<Rightarrow> error + 'a" where
  "getindex xs i =
     (let n = int (length xs); j = (if i < 0 then n + i else i)
      in if 0 \<le> j \<and> j < n then Inr (xs ! nat j) else Inl IndexError)"

definition page_image :: "string list \<Rightarrow> json \<Rightarrow> error + string" where
  "page_image images page_number =
     (case minus_one page_number of Inl e \<Rightarrow> Inl e | Inr i \<Rightarrow> getindex images i)"

section \<open>Stage runners (main.py)\<close>

text \<open>One response: \<^verbatim>\<open>json.loads\<close> of the content, then validation against the stage's
  schema.\<close>

definition decode :: "(ptype \<Rightarrow> json \<Rightarrow> json option) \<Rightarrow> schema \<Rightarrow> rawtext \<Rightarrow> error + json" where
  "decode prim S raw =
     (case json_loads raw of Inl e \<Rightarrow> Inl e | Inr obj \<Rightarrow> model_validate prim S obj)"

text \<open>A loop body that may raise, run over a list: the first exception ends the loop.\<close>

fun for_each :: "('a \<Rightarrow> error + 'b) \<Rightarrow> 'a list \<Rightarrow> error + 'b list" where
  "for_each body [] = Inr []"
| "for_each body (x # xs) =
     (case body x of
        Inl e \<Rightarrow> Inl e
      | Inr y \<Rightarrow> (case for_each body xs of Inl e \<Rightarrow> Inl e | Inr ys \<Rightarrow> Inr (y # ys)))"

text \<open>The loop over the responses of a batch: the first response that does not decode
  raises, and the results collected so far are dropped with the frame.\<close>

definition validate_responses ::
  "(ptype \<Rightarrow> json \<Rightarrow> json option) \<Rightarrow> schema \<Rightarrow> rawtext list \<Rightarrow> error + json list" where
  "validate_responses prim S responses = for_each (decode prim S) responses"

text \<open>What one unit of a batch comes to: the call, then the decoding of its response.\<close>

definition unit_result ::
  "(ptype \<Rightarrow> json \<Rightarrow> json option) \<Rightarrow> (request \<Rightarrow> error + rawtext) \<Rightarrow> schema \<Rightarrow> request
   \<Rightarrow> error + json" where
  "unit_result prim llm S coro =
     (case llm coro of Inl e \<Rightarrow> Inl e | Inr raw \<Rightarrow> decode prim S raw)"

text \<open>A batch: the requests go to the bounded executor together, then the responses are
  validated in order.\<close>

definition run_batch ::
  "(ptype \<Rightarrow> json \<Rightarrow> json option) \<Rightarrow> (request \<Rightarrow> error + rawtext) \<Rightarrow> nat list \<Rightarrow> int \<Rightarrow> schema
   \<Rightarrow> request list \<Rightarrow> json list outcome" where
  "run_batch prim llm order limit S coros =
     (case bounded_gather order (map llm coros) limit of
        Returns responses \<Rightarrow>
          (case validate_responses prim S responses of
             Inl e \<Rightarrow> Raises e
           | Inr category_results \<Rightarrow> Returns category_results)
      | Raises e \<Rightarrow> Raises e
      | Hangs \<Rightarrow> Hangs)"

text \<open>A batch is resolved with the results \<open>results\<close> when the executor returns on the
  calls of its requests and every request was answered with a JSON text that the schema
  validates into the result of its position.\<close>

definition resolved ::
  "(ptype \<Rightarrow> json \<Rightarrow> json option) \<Rightarrow> (request \<Rightarrow> error + rawtext) \<Rightarrow> nat list \<Rightarrow> int \<Rightarrow> schema
   \<Rightarrow> request list \<Rightarrow> json list \<Rightarrow> bool" where
  "resolved prim llm order limit S coros results \<longleftrightarrow>
     (\<exists>responses. bounded_gather order (map llm coros) limit = Returns responses) \<and>
     length results = length coros \<and>
     (\<forall>i < length coros. \<exists>obj. llm (coros ! i) = Inr (JsonText obj) \<and>
                                model_validate prim S obj = Inr (results ! i))"

text \<open>
  The page loop shared by stages 2, 3 and 4. \<open>build\<close> is the part of the loop body that
  differs between the stages: from a page it gives the page number and the requests of
  the page, or raises. The loop returns the output pages, or stops at the first page
  that fails. Next to the outcome it gives the batches handed to the executor, in
  order; \<open>orders i\<close> is the completion order of the \<open>i\<close>-th batch.
\<close>

fun run_pages ::
  "(ptype \<Rightarrow> json \<Rightarrow> json option) \<Rightarrow> (request \<Rightarrow> error + rawtext) \<Rightarrow> (nat \<Rightarrow> nat list) \<Rightarrow> int
   \<Rightarrow> schema \<Rightarrow> ('p \<Rightarrow> error + json \<times> request list) \<Rightarrow> nat \<Rightarrow> 'p list
   \<Rightarrow> json list outcome \<times> request list list" where
  "run_pages prim llm orders limit S build i [] = (Returns [], [])"
| "run_pages prim llm orders limit S build i (page # pages) =
     (case build page of
        Inl e \<Rightarrow> (Raises e, [])
      | Inr (page_number, coros) \<Rightarrow>
          (case run_batch prim llm (orders i) limit S coros of
             Raises e \<Rightarrow> (Raises e, [coros])
           | Hangs \<Rightarrow> (Hangs, [coros])
           | Returns category_results \<Rightarrow>
               (case run_pages prim llm orders limit S build (Suc i) pages of
                  (Returns all_pages_out, batches) \<Rightarrow>
                    (Returns (JObj [(''page_number'', page_number),
                                    (''categories'', JArr category_results)] # all_pages_out),
                     coros # batches)
                | (Raises e, batches) \<Rightarrow> (Raises e, coros # batches)
                | (Hangs, batches) \<Rightarrow> (Hangs, coros # batches))))"

text \<open>The files of the output directory: a path has a content or does not exist.\<close>

type_synonym files = "string \<rightharpoonup> rawtext"

definition CATEGORIES_FILE :: string where
  "CATEGORIES_FILE = ''outputs/categories_all_pages.json''"

definition ITEMS_FILE :: string where
  "ITEMS_FILE = ''outputs/category_items_all_pages.json''"

definition CATEGORY_BASES_FILE :: string where
  "CATEGORY_BASES_FILE = ''outputs/category_bases_all_pages.json''"

definition ITEMS_ADDONS_FILE :: string where
  "ITEMS_ADDONS_FILE = ''outputs/category_items_addons_all_pages.json''"

text \<open>The end of a stage: the output envelope is written to the stage's file and
  returned; on a failure nothing is written.\<close>

definition finish ::
  "string \<Rightarrow> string \<Rightarrow> files \<Rightarrow> json list outcome \<times> request list list
   \<Rightarrow> json outcome \<times> files \<times> request list list" where
  "finish path restaurant_name store r =
     (case r of
        (Returns all_pages_out, batches) \<Rightarrow>
          (let output = JObj [(''restaurant_name'', JStr restaurant_name),
                              (''pages'', JArr all_pages_out)]
           in (Returns output, store(path \<mapsto> JsonText output), batches))
      | (Raises e, batches) \<Rightarrow> (Raises e, store, batches)
      | (Hangs, batches) \<Rightarrow> (Hangs, store, batches))"

subsection \<open>Phase 1\<close>

text \<open>One request per page image, numbered from 1, all in one batch.\<close>

definition phase1_coros :: "string \<Rightarrow> string list \<Rightarrow> request list" where
  "phase1_coros restaurant_name images =
     map (\<lambda>(page_idx, img_b64).
            call_openrouter (phase1_prompt restaurant_name (JInt (int page_idx))) img_b64
              (Categories Utils_model))
         (zip [1..<Suc (length images)] images)"

definition run_phase1 ::
  "(ptype \<Rightarrow> json \<Rightarrow> json option) \<Rightarrow> (request \<Rightarrow> error + rawtext) \<Rightarrow> (nat \<Rightarrow> nat list) \<Rightarrow> int
   \<Rightarrow> string list \<Rightarrow> files \<Rightarrow> string \<Rightarrow> json outcome \<times> files \<times> request list list" where
  "run_phase1 prim llm orders limit images store restaurant_name =
     (let coros = phase1_coros restaurant_name images in
      finish CATEGORIES_FILE restaurant_name store
        (case bounded_gather (orders 0) (map llm coros) limit of
           Returns responses \<Rightarrow>
             (case validate_responses prim (Categories Utils_model) responses of
                Inl e \<Rightarrow> (Raises e, [coros])
              | Inr validated \<Rightarrow>
                  (Returns (map (\<lambda>(page_idx, data).
                                   JObj [(''page_number'', JInt (int page_idx)), (''data'', data)])
                                (zip [1..<Suc (length validated)] validated)),
                   [coros]))
         | Raises e \<Rightarrow> (Raises e, [coros])
         | Hangs \<Rightarrow> (Hangs, [coros])))"

subsection \<open>Phase 2\<close>

definition phase2_coros ::
  "(ptype \<Rightarrow> json \<Rightarrow> json option) \<Rightarrow> string \<Rightarrow> string list \<Rightarrow> json
   \<Rightarrow> error + json \<times> request list" where
  "phase2_coros prim restaurant_name images page =
     (case getitem page ''page_number'' of Inl e \<Rightarrow> Inl e | Inr page_number \<Rightarrow>
      case page_image images page_number of Inl e \<Rightarrow> Inl e | Inr img_b64 \<Rightarrow>
      case getitem page ''data'' of Inl e \<Rightarrow> Inl e | Inr data \<Rightarrow>
      case model_validate prim (Categories Utils_model) data of Inl e \<Rightarrow> Inl e
      | Inr page_categories \<Rightarrow>
      case getitem page_categories ''categories'' of Inl e \<Rightarrow> Inl e | Inr categories \<Rightarrow>
      case iterate categories of Inl e \<Rightarrow> Inl e | Inr cats \<Rightarrow>
        Inr (page_number,
             map (\<lambda>cat. call_openrouter (phase2_prompt restaurant_name page_number cat) img_b64
                          (CategorywithItems Utils_model)) cats))"

definition run_phase2 ::
  "(ptype \<Rightarrow> json \<Rightarrow> json option) \<Rightarrow> (request \<Rightarrow> error + rawtext) \<Rightarrow> (nat \<Rightarrow> nat list) \<Rightarrow> int
   \<Rightarrow> string list \<Rightarrow> files \<Rightarrow> string \<Rightarrow> json \<Rightarrow> json outcome \<times> files \<times> request list list" where
  "run_phase2 prim llm orders limit images store restaurant_name categories_payload =
     finish ITEMS_FILE restaurant_name store
       (case getitem categories_payload ''pages'' of Inl e \<Rightarrow> (Raises e, []) | Inr pages \<Rightarrow>
        case iterate pages of Inl e \<Rightarrow> (Raises e, []) | Inr ps \<Rightarrow>
          run_pages prim llm orders limit (CategorywithItems Utils_model)
            (phase2_coros prim restaurant_name images) 0 ps)"

subsection \<open>Phase 3\<close>

definition phase3_coros ::
  "(ptype \<Rightarrow> json \<Rightarrow> json option) \<Rightarrow> string \<Rightarrow> string list \<Rightarrow> json
   \<Rightarrow> error + json \<times> request list" where
  "phase3_coros prim restaurant_name images page =
     (case getitem page ''page_number'' of Inl e \<Rightarrow> Inl e | Inr page_number \<Rightarrow>
      case page_image images page_number of Inl e \<Rightarrow> Inl e | Inr img_b64 \<Rightarrow>
      case getitem page ''categories'' of Inl e \<Rightarrow> Inl e | Inr page_categories \<Rightarrow>
      case iterate page_categories of Inl e \<Rightarrow> Inl e | Inr cats \<Rightarrow>
      case for_each
             (\<lambda>cat. case model_validate prim (CategorywithItems Utils_model) cat of
                       Inl e \<Rightarrow> Inl e
                     | Inr cat' \<Rightarrow>
                         Inr (call_openrouter
                                (phase3_prompt restaurant_name page_number
                                   (JObj [(''category'', cat')]))
                                img_b64 (CategoryBase Utils_model)))
             cats of
        Inl e \<Rightarrow> Inl e
      | Inr coros \<Rightarrow> Inr (page_number, coros))"

definition run_phase3 ::
  "(ptype \<Rightarrow> json \<Rightarrow> json option) \<Rightarrow> (request \<Rightarrow> error + rawtext) \<Rightarrow> (nat \<Rightarrow> nat list) \<Rightarrow> int
   \<Rightarrow> string list \<Rightarrow> files \<Rightarrow> string \<Rightarrow> json \<Rightarrow> json outcome \<times> files \<times> request list list" where
  "run_phase3 prim llm orders limit images store restaurant_name category_bases_payload =
     finish CATEGORY_BASES_FILE restaurant_name store
       (case getitem category_bases_payload ''pages'' of Inl e \<Rightarrow> (Raises e, []) | Inr pages \<Rightarrow>
        case iterate pages of Inl e \<Rightarrow> (Raises e, []) | Inr ps \<Rightarrow>
          run_pages prim llm orders limit (CategoryBase Utils_model)
            (phase3_coros prim restaurant_name images) 0 ps)"

subsection \<open>Phase 4\<close>

text \<open>The pages of the two payloads, and the categories of two corresponding pages, are
  paired with \<^verbatim>\<open>zip\<close>: by position, up to the end of the shorter list.\<close>

definition phase4_coros ::
  "(ptype \<Rightarrow> json \<Rightarrow> json option) \<Rightarrow> string \<Rightarrow> string list \<Rightarrow> json \<times> json
   \<Rightarrow> error + json \<times> request list" where
  "phase4_coros prim restaurant_name images pair =
     (case pair of (page, page_base) \<Rightarrow>
      case getitem page ''page_number'' of Inl e \<Rightarrow> Inl e | Inr page_number \<Rightarrow>
      case page_image images page_number of Inl e \<Rightarrow> Inl e | Inr img_b64 \<Rightarrow>
      case getitem page ''categories'' of Inl e \<Rightarrow> Inl e | Inr page_categories \<Rightarrow>
      case getitem page_base ''categories'' of Inl e \<Rightarrow> Inl e | Inr page_bases \<Rightarrow>
      case iterate page_categories of Inl e \<Rightarrow> Inl e | Inr cats \<Rightarrow>
      case iterate page_bases of Inl e \<Rightarrow> Inl e | Inr bases \<Rightarrow>
      case for_each
             (\<lambda>(cat, cat_base).
                case model_validate prim (CategorywithItems Utils_model) cat of
                  Inl e \<Rightarrow> Inl e
                | Inr cat' \<Rightarrow>
                    (case model_validate prim (CategoryBase Utils_model) cat_base of
                       Inl e \<Rightarrow> Inl e
                     | Inr cat_base' \<Rightarrow>
                         Inr (call_openrouter
                                (phase4_prompt restaurant_name page_number
                                   (JObj [(''category'', cat')])
                                   (JObj [(''category_base'', cat_base')]))
                                img_b64 (CategoryItemAddons Utils_model))))
             (zip cats bases) of
        Inl e \<Rightarrow> Inl e
      | Inr coros \<Rightarrow> Inr (page_number, coros))"

definition run_phase4 ::
  "(ptype \<Rightarrow> json \<Rightarrow> json option) \<Rightarrow> (request \<Rightarrow> error + rawtext) \<Rightarrow> (nat \<Rightarrow> nat list) \<Rightarrow> int
   \<Rightarrow> string list \<Rightarrow> files \<Rightarrow> string \<Rightarrow> json \<Rightarrow> json
   \<Rightarrow> json outcome \<times> files \<times> request list list" where
  "run_phase4 prim llm orders limit images store restaurant_name category_payload
       category_base_payload =
     finish ITEMS_ADDONS_FILE restaurant_name store
       (case getitem category_payload ''pages'' of Inl e \<Rightarrow> (Raises e, []) | Inr pages \<Rightarrow>
        case getitem category_base_payload ''pages'' of Inl e \<Rightarrow> (Raises e, [])
        | Inr pages_base \<Rightarrow>
        case iterate pages of Inl e \<Rightarrow> (Raises e, []) | Inr ps \<Rightarrow>
        case iterate pages_base of Inl e \<Rightarrow> (Raises e, []) | Inr bs \<Rightarrow>
          run_pages prim llm orders limit (CategoryItemAddons Utils_model)
            (phase4_coros prim restaurant_name images) 0 (zip ps bs))"

subsection \<open>All or nothing\<close>

text \<open>
  The failure policy of a stage run that started from the files \<open>store\<close>, read off its
  result (outcome, files afterwards, batches handed to the executor): if a unit of one
  of the batches fails, the files are as they were and the outcome is an exception (no
  value; with a limit that is not positive the run may also never return).
\<close>

definition all_or_nothing ::
  "files \<Rightarrow> int \<Rightarrow> (request \<Rightarrow> error + json) \<Rightarrow> json outcome \<times> files \<times> request list list \<Rightarrow> bool" where
  "all_or_nothing store limit unit R =
     (case R of (out, store', batches) \<Rightarrow>
        (\<exists>b \<in> set batches. \<exists>coro \<in> set b. isl (unit coro)) \<longrightarrow>
        store' = store \<and>
        (case out of Returns output \<Rightarrow> False | Raises e \<Rightarrow> True | Hangs \<Rightarrow> \<not> 0 < limit))"

section \<open>A two-page document\<close>

text \<open>
  The Stage-1 artifact of a two-page menu: page 1 has the category Appetizers, page 2 the
  category Entrees with the subcategory Pasta. Two services to run it with: one answers
  every request with the same items object, one with text that is not JSON.
\<close>

definition appetizers :: json where
  "appetizers = JObj [(''name_raw'', JStr ''Appetizers''), (''subcategories'', JArr [])]"

definition entrees :: json where
  "entrees = JObj [(''name_raw'', JStr ''Entrees''),
                   (''subcategories'', JArr [JObj [(''name_raw'', JStr ''Pasta'')]])]"

definition page_one :: json where
  "page_one = JObj [(''page_number'', JInt 1), (''data'', JObj [(''categories'', JArr [appetizers])])]"

definition page_two :: json where
  "page_two = JObj [(''page_number'', JInt 2), (''data'', JObj [(''categories'', JArr [entrees])])]"

definition two_page_categories :: json where
  "two_page_categories =
     JObj [(''restaurant_name'', JStr ''Amici''), (''pages'', JArr [page_one, page_two])]"

definition items_reply :: "request \<Rightarrow> error + rawtext" where
  "items_reply coro =
     Inr (JsonText (JObj [(''name_raw'', JStr ''Dishes''), (''note'', JStr ''none'')]))"

definition broken_reply :: "request \<Rightarrow> error + rawtext" where
  "broken_reply coro = Inr (Unparseable ''Sorry, I cannot read this page.'')"

text \<open>
  Stage-2 and Stage-3 artifacts of the same document. In \<open>two_page_bases\<close> the category
  of page 1 has been renamed; \<open>one_page_bases\<close> lacks page 2 and has one category more
  on page 1.
\<close>

definition items_unit :: "string \<Rightarrow> json" where
  "items_unit name = JObj [(''name_raw'', JStr name), (''note'', JStr ''none'')]"

definition base_unit :: "string \<Rightarrow> json" where
  "base_unit name = JObj [(''name_raw'', JStr name)]"

definition envelope_page :: "int \<Rightarrow> json list \<Rightarrow> json" where
  "envelope_page n units = JObj [(''page_number'', JInt n), (''categories'', JArr units)]"

definition envelope :: "json list \<Rightarrow> json" where
  "envelope pages = JObj [(''restaurant_name'', JStr ''Amici''), (''pages'', JArr pages)]"

definition two_page_items :: json where
  "two_page_items =
     envelope [envelope_page 1 [items_unit ''Appetizers''], envelope_page 2 [items_unit ''Entrees'']]"

definition two_page_bases :: json where
  "two_page_bases =
     envelope [envelope_page 1 [base_unit ''Starters''], envelope_page 2 [base_unit ''Entrees'']]"

definition one_page_bases :: json where
  "one_page_bases = envelope [envelope_page 1 [base_unit ''Appetizers'', base_unit ''Soups'']]"

definition addons_reply :: "request \<Rightarrow> error + rawtext" where
  "addons_reply coro = Inr (JsonText (JObj [(''name_raw'', JStr ''Dishes'')]))"

text \<open>The validated forms of the two kinds of unit, with their defaults filled in.\<close>

definition items_validated :: "string \<Rightarrow> json" where
  "items_validated name =
     JObj [(''name_raw'', JStr name), (''category_items'', JArr []),
           (''subcategory_items'', JArr []), (''note'', JStr ''none'')]"

definition base_validated :: "string \<Rightarrow> json" where
  "base_validated name =
     JObj [(''name_raw'', JStr name), (''base_options'', JArr []),
           (''subcategories_base'', JArr [])]"


text \<open>A Stage-2 category with one priced item, given the price object of the item, and
  its validated form for the price with the amount only.\<close>

definition plain_price :: json where
  "plain_price = JObj [(''amount'', JFloat ''12.5'')]"

definition taxed_price :: json where
  "taxed_price = JObj [(''amount'', JFloat ''12.5''), (''tax'', JFloat ''1.0'')]"

definition priced_category :: "json \<Rightarrow> json" where
  "priced_category p =
     JObj [(''name_raw'', JStr ''Entrees''),
           (''category_items'',
            JArr [JObj [(''items'',
                         JArr [JObj [(''name_raw'', JStr ''Ravioli''), (''base_price'', p)]])]]),
           (''note'', JStr ''none'')]"

definition priced_validated :: json where
  "priced_validated =
     JObj [(''name_raw'', JStr ''Entrees''),
           (''category_items'',
            JArr [JObj [(''items'',
                         JArr [JObj [(''name_raw'', JStr ''Ravioli''),
                                     (''description_raw'', JNull),
                                     (''variations'', JArr []),
                                     (''base_price'',
                                      JObj [(''amount'', JFloat ''12.5''), (''currency'', JNull)]),
                                     (''size'', JNull)]]),
                        (''description_raw'', JNull)]]),
           (''subcategory_items'', JArr []),
           (''note'', JStr ''none'')]"

section \<open>Review backend (backend/main.py)\<close>

text \<open>
  The backend keeps the stage artifacts as files of the output directory and validates
  with the lenient models of \<^verbatim>\<open>backend/utils/model.py\<close>. Its endpoints are functions
  of the file store: they give what the handler returns or raises, and the store they
  leave. An exception that is not an \<^verbatim>\<open>HTTPException\<close> leaves the handler as it is.

  The module \<^verbatim>\<open>extractor\<close> that the backend imports is not among the sources. Its
  stage runner is a parameter of the endpoint that calls it; its prompt builders and
  its gateway are those of \<^verbatim>\<open>main.py\<close>, with the restaurant name as the file has it.
\<close>

definition UPLOADED_PDF_PATH :: string where
  "UPLOADED_PDF_PATH = ''outputs/uploaded_menu.pdf''"

definition PHASE1_RAW_OUTPUT :: string where
  "PHASE1_RAW_OUTPUT = ''outputs/categories_all_pages.json''"

definition PHASE2_INPUT_REVIEWED :: string where
  "PHASE2_INPUT_REVIEWED = ''outputs/reviewed_categories.json''"

definition PHASE2_FINAL_ITEMS :: string where
  "PHASE2_FINAL_ITEMS = ''outputs/category_items_all_pages.json''"

definition PHASE3_FINAL_BASES :: string where
  "PHASE3_FINAL_BASES = ''outputs/category_bases_all_pages.json''"

definition PHASE4_FINAL_ITEMS_ADDONS :: string where
  "PHASE4_FINAL_ITEMS_ADDONS = ''outputs/category_items_addons_all_pages.json''"

text \<open>The request bodies of the two save endpoints: a name and a list of dicts.\<close>

datatype Phase2CategoriesPayload =
  Phase2CategoriesPayload (categories_restaurant_name: string)
                          (categories_pages: "(string \<times> json) list list")

datatype Phase3ItemsPayload =
  Phase3ItemsPayload (items_restaurant_name: string)
                     (items_pages: "(string \<times> json) list list")

definition model_dump :: "string \<Rightarrow> (string \<times> json) list list \<Rightarrow> json" where
  "model_dump restaurant_name pages =
     JObj [(''restaurant_name'', JStr restaurant_name), (''pages'', JArr (map JObj pages))]"

subsection \<open>Helper functions\<close>

text \<open>\<^verbatim>\<open>load_json_file\<close>: 404 when the file does not exist, 500 when it does not parse
  (the detail of the 500 ends with the text of the parser's exception, left out here).\<close>

definition load_json_file :: "files \<Rightarrow> string \<Rightarrow> string \<Rightarrow> error + json" where
  "load_json_file store file_path error_message =
     (case store file_path of
        None \<Rightarrow> Inl (HTTPException 404 error_message)
      | Some content \<Rightarrow>
          (case json_loads content of
             Inl e \<Rightarrow> Inl (HTTPException 500 ''Failed to load file: '')
           | Inr data \<Rightarrow> Inr data))"

definition save_json_file :: "files \<Rightarrow> string \<Rightarrow> json \<Rightarrow> files" where
  "save_json_file store file_path data = store(file_path \<mapsto> JsonText data)"

text \<open>\<^verbatim>\<open>file_path.name\<close>: the last component of a path.\<close>

definition path_name :: "string \<Rightarrow> string" where
  "path_name file_path = rev (takeWhile (\<lambda>c. c \<noteq> CHR ''/'') (rev file_path))"

fun check_required_files :: "files \<Rightarrow> string list \<Rightarrow> error + unit" where
  "check_required_files store [] = Inr ()"
| "check_required_files store (file_path # file_paths) =
     (if store file_path = None then
        (if file_path = UPLOADED_PDF_PATH
         then Inl (HTTPException 400 ''PDF not found. Please upload PDF first.'')
         else Inl (HTTPException 400
                (''Required file not found: '' @ path_name file_path @
                 ''. Please complete previous phases.'')))
      else check_required_files store file_paths)"

subsection \<open>Saving reviewed artifacts\<close>

text \<open>Each endpoint validates the body and then writes one file: the one of its own
  stage. No other file is written or removed.\<close>

definition update_phase1_categories ::
  "(ptype \<Rightarrow> json \<Rightarrow> json option) \<Rightarrow> files \<Rightarrow> Phase2CategoriesPayload
   \<Rightarrow> json outcome \<times> files" where
  "update_phase1_categories prim store payload =
     (case for_each
             (\<lambda>page.
                if ''data'' \<in> set (map fst page)
                then (case getitem (JObj page) ''data'' of
                        Inl e \<Rightarrow> Inl e
                      | Inr data \<Rightarrow> model_validate prim (Categories Backend_utils_model) data)
                else Inl (HTTPException 400 ''Invalid payload structure''))
             (categories_pages payload) of
        Inl e \<Rightarrow> (Raises e, store)
      | Inr validated \<Rightarrow>
          (Returns (JObj [(''success'', JBool True),
                          (''message'', JStr ''Categories updated successfully'')]),
           save_json_file store PHASE2_INPUT_REVIEWED
             (model_dump (categories_restaurant_name payload) (categories_pages payload))))"

definition update_phase2_items ::
  "(ptype \<Rightarrow> json \<Rightarrow> json option) \<Rightarrow> files \<Rightarrow> Phase3ItemsPayload
   \<Rightarrow> json outcome \<times> files" where
  "update_phase2_items prim store payload =
     (case for_each
             (\<lambda>page.
                if ''categories'' \<in> set (map fst page)
                then (case getitem (JObj page) ''categories'' of
                        Inl e \<Rightarrow> Inl e
                      | Inr categories \<Rightarrow>
                          (case iterate categories of
                             Inl e \<Rightarrow> Inl e
                           | Inr cats \<Rightarrow>
                               for_each
                                 (model_validate prim (CategorywithItems Backend_utils_model))
                                 cats))
                else Inl (HTTPException 400 ''Invalid payload structure''))
             (items_pages payload) of
        Inl e \<Rightarrow> (Raises e, store)
      | Inr validated \<Rightarrow>
          (Returns (JObj [(''success'', JBool True),
                          (''message'', JStr ''Items updated successfully'')]),
           save_json_file store PHASE2_FINAL_ITEMS
             (model_dump (items_restaurant_name payload) (items_pages payload))))"

subsection \<open>Stage 4 from the files\<close>

text \<open>\<open>extractor_run_phase4\<close> is the runner \<^verbatim>\<open>run_phase4\<close> of the module \<^verbatim>\<open>extractor\<close>: it is given the
  restaurant name, the two payloads and the path of the PDF, and may write files.\<close>

definition extract_addons ::
  "(json \<Rightarrow> json \<Rightarrow> json \<Rightarrow> string \<Rightarrow> files \<Rightarrow> json outcome \<times> files) \<Rightarrow> files
   \<Rightarrow> json outcome \<times> files" where
  "extract_addons extractor_run_phase4 store =
     (case check_required_files store
             [PHASE2_FINAL_ITEMS, PHASE3_FINAL_BASES, UPLOADED_PDF_PATH] of
        Inl e \<Rightarrow> (Raises e, store)
      | Inr ok \<Rightarrow>
     (case load_json_file store PHASE2_FINAL_ITEMS ''No items found.'' of
        Inl e \<Rightarrow> (Raises e, store)
      | Inr items_data \<Rightarrow>
     (case load_json_file store PHASE3_FINAL_BASES ''No bases found.'' of
        Inl e \<Rightarrow> (Raises e, store)
      | Inr bases_data \<Rightarrow>
     (case getitem items_data ''restaurant_name'' of
        Inl e \<Rightarrow> (Raises e, store)
      | Inr restaurant_name \<Rightarrow>
     (case extractor_run_phase4 restaurant_name items_data bases_data UPLOADED_PDF_PATH store of
        (Returns result, store') \<Rightarrow>
          (Returns (JObj [(''success'', JBool True),
                          (''message'', JStr ''Items with addons extraction complete''),
                          (''phase4_result'', result)]),
           store')
      | (Raises e, store') \<Rightarrow> (Raises e, store')
      | (Hangs, store') \<Rightarrow> (Hangs, store'))))))"

subsection \<open>Partial re-extraction\<close>

text \<open>
  \<^verbatim>\<open>v == n\<close> for an integer \<open>n\<close> and \<^verbatim>\<open>v == s\<close> for a string \<open>s\<close>, on a value read
  from JSON. A boolean counts as 0 or 1; whether the float of a literal equals an
  integer is the parameter \<open>float_eq\<close>; values of other types are different.
\<close>

fun eq_int :: "(string \<Rightarrow> int \<Rightarrow> bool) \<Rightarrow> json \<Rightarrow> int \<Rightarrow> bool" where
  "eq_int float_eq (JInt k) n = (k = n)"
| "eq_int float_eq (JBool b) n = ((if b then 1 else 0) = n)"
| "eq_int float_eq (JFloat s) n = float_eq s n"
| "eq_int float_eq j n = False"

fun eq_str :: "json \<Rightarrow> string \<Rightarrow> bool" where
  "eq_str (JStr s) t = (s = t)"
| "eq_str j t = False"

text \<open>An integer in an f-string.\<close>

definition str_int :: "int \<Rightarrow> string" where
  "str_int n = (if n < 0 then ''-'' @ decimal (nat (- n)) else decimal (nat n))"

definition page_not_found :: "int \<Rightarrow> error" where
  "page_not_found page_number =
     HTTPException 404 (''Page '' @ str_int page_number @ '' not found'')"

definition category_not_found :: "string \<Rightarrow> int \<Rightarrow> error" where
  "category_not_found category_name page_number =
     HTTPException 404
       (''Category '' @ [CHR 0x27] @ category_name @ [CHR 0x27] @ '' not found on page '' @
        str_int page_number)"

text \<open>The two search loops. Each ends at its first match; \<open>JNull\<close> is Python's
  \<^verbatim>\<open>None\<close>, the value of the target when the loop ends without one. The category
  loop reads the key \<^verbatim>\<open>name\<close> of every category it passes.\<close>

fun target_page :: "(string \<Rightarrow> int \<Rightarrow> bool) \<Rightarrow> int \<Rightarrow> json list \<Rightarrow> error + json" where
  "target_page float_eq page_number [] = Inr JNull"
| "target_page float_eq page_number (page # pages) =
     (case getitem page ''page_number'' of
        Inl e \<Rightarrow> Inl e
      | Inr n \<Rightarrow>
          if eq_int float_eq n page_number then Inr page
          else target_page float_eq page_number pages)"

fun target_category :: "string \<Rightarrow> json list \<Rightarrow> error + json" where
  "target_category category_name [] = Inr JNull"
| "target_category category_name (cat # cats) =
     (case getitem cat ''name'' of
        Inl e \<Rightarrow> Inl e
      | Inr name \<Rightarrow>
          if eq_str name category_name then Inr cat
          else target_category category_name cats)"

text \<open>The prompt builders of the module \<^verbatim>\<open>extractor\<close>, as \<^verbatim>\<open>main.py\<close> has them,
  given the restaurant name that the file holds.\<close>

definition extractor_phase2_prompt :: "json \<Rightarrow> json \<Rightarrow> json \<Rightarrow> prompt" where
  "extractor_phase2_prompt restaurant_name page_number category =
     Prompt ''phase2.j2''
       [(''restaurant_name'', restaurant_name), (''page_number'', page_number),
        (''categories'', category)]"

definition extractor_phase4_prompt :: "json \<Rightarrow> json \<Rightarrow> json \<Rightarrow> json \<Rightarrow> prompt" where
  "extractor_phase4_prompt restaurant_name page_number category category_base =
     Prompt ''phase4.j2''
       [(''restaurant_name'', restaurant_name), (''page_number'', page_number),
        (''category'', category), (''category_base'', category_base)]"

text \<open>Lines 224 to 241 of \<^verbatim>\<open>reextract_category_items\<close>: the page, then the category
  in the page's \<^verbatim>\<open>data\<close>.\<close>

definition locate_category ::
  "(string \<Rightarrow> int \<Rightarrow> bool) \<Rightarrow> json \<Rightarrow> string \<Rightarrow> int \<Rightarrow> error + json" where
  "locate_category float_eq reviewed_data category_name page_number =
     (case getitem reviewed_data ''pages'' of Inl e \<Rightarrow> Inl e | Inr pages_value \<Rightarrow>
     (case iterate pages_value of Inl e \<Rightarrow> Inl e | Inr pages \<Rightarrow>
     (case target_page float_eq page_number pages of Inl e \<Rightarrow> Inl e | Inr page \<Rightarrow>
        if \<not> truthy page then Inl (page_not_found page_number)
        else
     (case getitem page ''data'' of Inl e \<Rightarrow> Inl e | Inr data \<Rightarrow>
     (case getitem data ''categories'' of Inl e \<Rightarrow> Inl e | Inr categories \<Rightarrow>
     (case iterate categories of Inl e \<Rightarrow> Inl e | Inr cats \<Rightarrow>
     (case target_category category_name cats of Inl e \<Rightarrow> Inl e | Inr category \<Rightarrow>
        if \<not> truthy category then Inl (category_not_found category_name page_number)
        else Inr category)))))))"

text \<open>Lines 243 to 265: one request for the category, its reply parsed and validated,
  and the validated object returned in the response body.\<close>

definition reextract_items ::
  "(ptype \<Rightarrow> json \<Rightarrow> json option) \<Rightarrow> (request \<Rightarrow> error + rawtext) \<Rightarrow> string list \<Rightarrow> json
   \<Rightarrow> string \<Rightarrow> int \<Rightarrow> json \<Rightarrow> error + json" where
  "reextract_items prim llm images reviewed_data category_name page_number category =
     (case getindex images (page_number - 1) of Inl e \<Rightarrow> Inl e | Inr img \<Rightarrow>
     (case getitem reviewed_data ''restaurant_name'' of Inl e \<Rightarrow> Inl e | Inr restaurant_name \<Rightarrow>
     (case llm (call_openrouter
                  (extractor_phase2_prompt restaurant_name (JInt page_number) category)
                  img (CategorywithItems Backend_utils_model)) of
        Inl e \<Rightarrow> Inl e
      | Inr raw \<Rightarrow>
     (case decode prim (CategorywithItems Backend_utils_model) raw of
        Inl e \<Rightarrow> Inl e
      | Inr validated \<Rightarrow>
          Inr (JObj [(''success'', JBool True),
                     (''message'',
                      JStr (''Re-extracted items for category '' @ [CHR 0x27] @ category_name @
                            [CHR 0x27])),
                     (''category_items'', validated)])))))"

definition reextract_category_items ::
  "(string \<Rightarrow> int \<Rightarrow> bool) \<Rightarrow> (ptype \<Rightarrow> json \<Rightarrow> json option) \<Rightarrow> (request \<Rightarrow> error + rawtext)
   \<Rightarrow> string list \<Rightarrow> files \<Rightarrow> string \<Rightarrow> int \<Rightarrow> json outcome \<times> files" where
  "reextract_category_items float_eq prim llm images store category_name page_number =
     (case check_required_files store [PHASE2_INPUT_REVIEWED, UPLOADED_PDF_PATH] of
        Inl e \<Rightarrow> (Raises e, store)
      | Inr ok \<Rightarrow>
     (case load_json_file store PHASE2_INPUT_REVIEWED ''No reviewed categories found.'' of
        Inl e \<Rightarrow> (Raises e, store)
      | Inr reviewed_data \<Rightarrow>
     (case locate_category float_eq reviewed_data category_name page_number of
        Inl e \<Rightarrow> (Raises e, store)
      | Inr category \<Rightarrow>
     (case reextract_items prim llm images reviewed_data category_name page_number category of
        Inl e \<Rightarrow> (Raises e, store)
      | Inr body \<Rightarrow> (Returns body, store)))))"

text \<open>The search of \<^verbatim>\<open>reextract_category_addons\<close> (lines 337 to 353): every page of
  the number is searched, only the inner loop ends at a match, and a page without a
  match leaves the target as it was.\<close>

fun target_cat ::
  "(string \<Rightarrow> int \<Rightarrow> bool) \<Rightarrow> string \<Rightarrow> int \<Rightarrow> json \<Rightarrow> json list \<Rightarrow> error + json" where
  "target_cat float_eq category_name page_number target [] = Inr target"
| "target_cat float_eq category_name page_number target (page # pages) =
     (case getitem page ''page_number'' of
        Inl e \<Rightarrow> Inl e
      | Inr n \<Rightarrow>
          if eq_int float_eq n page_number then
            (case getitem page ''categories'' of Inl e \<Rightarrow> Inl e | Inr categories \<Rightarrow>
            (case iterate categories of Inl e \<Rightarrow> Inl e | Inr cats \<Rightarrow>
            (case target_category category_name cats of
               Inl e \<Rightarrow> Inl e
             | Inr found \<Rightarrow>
                 target_cat float_eq category_name page_number
                   (if found = JNull then target else found) pages)))
          else target_cat float_eq category_name page_number target pages)"

definition locate_pair ::
  "(string \<Rightarrow> int \<Rightarrow> bool) \<Rightarrow> json \<Rightarrow> json \<Rightarrow> string \<Rightarrow> int \<Rightarrow> error + json \<times> json" where
  "locate_pair float_eq items_data bases_data category_name page_number =
     (case getitem items_data ''pages'' of Inl e \<Rightarrow> Inl e | Inr item_pages_value \<Rightarrow>
     (case iterate item_pages_value of Inl e \<Rightarrow> Inl e | Inr item_pages \<Rightarrow>
     (case target_cat float_eq category_name page_number JNull item_pages of
        Inl e \<Rightarrow> Inl e
      | Inr target_item_cat \<Rightarrow>
     (case getitem bases_data ''pages'' of Inl e \<Rightarrow> Inl e | Inr base_pages_value \<Rightarrow>
     (case iterate base_pages_value of Inl e \<Rightarrow> Inl e | Inr base_pages \<Rightarrow>
     (case target_cat float_eq category_name page_number JNull base_pages of
        Inl e \<Rightarrow> Inl e
      | Inr target_base_cat \<Rightarrow>
          if \<not> truthy target_item_cat \<or> \<not> truthy target_base_cat
          then Inl (category_not_found category_name page_number)
          else Inr (target_item_cat, target_base_cat)))))))"

definition reextract_addons ::
  "(ptype \<Rightarrow> json \<Rightarrow> json option) \<Rightarrow> (request \<Rightarrow> error + rawtext) \<Rightarrow> string list \<Rightarrow> json
   \<Rightarrow> string \<Rightarrow> int \<Rightarrow> json \<times> json \<Rightarrow> error + json" where
  "reextract_addons prim llm images items_data category_name page_number pair =
     (case getindex images (page_number - 1) of Inl e \<Rightarrow> Inl e | Inr img \<Rightarrow>
     (case getitem items_data ''restaurant_name'' of Inl e \<Rightarrow> Inl e | Inr restaurant_name \<Rightarrow>
     (case llm (call_openrouter
                  (extractor_phase4_prompt restaurant_name (JInt page_number)
                     (JObj [(''category'', fst pair)]) (JObj [(''category_base'', snd pair)]))
                  img (CategoryItemAddons Backend_utils_model)) of
        Inl e \<Rightarrow> Inl e
      | Inr raw \<Rightarrow>
     (case decode prim (CategoryItemAddons Backend_utils_model) raw of
        Inl e \<Rightarrow> Inl e
      | Inr validated \<Rightarrow>
          Inr (JObj [(''success'', JBool True),
                     (''message'',
                      JStr (''Re-extracted addons for category '' @ [CHR 0x27] @ category_name @
                            [CHR 0x27])),
                     (''category_addons'', validated)])))))"

definition reextract_category_addons ::
  "(string \<Rightarrow> int \<Rightarrow> bool) \<Rightarrow> (ptype \<Rightarrow> json \<Rightarrow> json option) \<Rightarrow> (request \<Rightarrow> error + rawtext)
   \<Rightarrow> string list \<Rightarrow> files \<Rightarrow> string \<Rightarrow> int \<Rightarrow> json outcome \<times> files" where
  "reextract_category_addons float_eq prim llm images store category_name page_number =
     (case check_required_files store
             [PHASE2_FINAL_ITEMS, PHASE3_FINAL_BASES, UPLOADED_PDF_PATH] of
        Inl e \<Rightarrow> (Raises e, store)
      | Inr ok \<Rightarrow>
     (case load_json_file store PHASE2_FINAL_ITEMS ''No items found.'' of
        Inl e \<Rightarrow> (Raises e, store)
      | Inr items_data \<Rightarrow>
     (case load_json_file store PHASE3_FINAL_BASES ''No bases found.'' of
        Inl e \<Rightarrow> (Raises e, store)
      | Inr bases_data \<Rightarrow>
     (case locate_pair float_eq items_data bases_data category_name page_number of
        Inl e \<Rightarrow> (Raises e, store)
      | Inr pair \<Rightarrow>
     (case reextract_addons prim llm images items_data category_name page_number pair of
        Inl e \<Rightarrow> (Raises e, store)
      | Inr body \<Rightarrow> (Returns body, store))))))"

section \<open>Interactive front end (streamlit.py)\<close>

text \<open>
  The front end keeps the stage results in its session state, under the keys
  \<^verbatim>\<open>phase1_result\<close> to \<^verbatim>\<open>phase4_result\<close>. \<open>editable_json\<close> is the editor of one
  result when its button is pressed on the text \<open>text\<close>: a text that parses
  replaces the result and removes the results of the later stages; \<open>run_phase4_disabled\<close>
  is the condition under which Stage 4 cannot be started.
\<close>

type_synonym session_state = "string \<rightharpoonup> json"

definition get_state :: "session_state \<Rightarrow> string \<Rightarrow> json" where
  "get_state session_state key = (case session_state key of None \<Rightarrow> JNull | Some v \<Rightarrow> v)"

definition editable_json ::
  "session_state \<Rightarrow> string \<Rightarrow> string list \<Rightarrow> rawtext \<Rightarrow> session_state" where
  "editable_json session_state session_key downstream_keys text =
     (if get_state session_state session_key = JNull then session_state
      else (case json_loads text of
              Inl e \<Rightarrow> session_state
            | Inr parsed \<Rightarrow>
                fold (\<lambda>k state. state(k := None)) downstream_keys
                  (session_state(session_key \<mapsto> parsed))))"

definition run_phase4_disabled :: "string list option \<Rightarrow> session_state \<Rightarrow> bool" where
  "run_phase4_disabled base64_images session_state =
     (base64_images = None \<or> \<not> truthy (get_state session_state ''phase2_result'') \<or>
      \<not> truthy (get_state session_state ''phase3_result''))"

section \<open>A reviewed document\<close>

text \<open>
  The files of the backend after all four stages have run on the two-page document, and
  an edit of the Stage-2 artifact that renames the category of page 1.
\<close>

definition pdf_bytes :: rawtext where
  "pdf_bytes = Unparseable ''%PDF-1.7''"

definition two_page_addons :: json where
  "two_page_addons =
     envelope [envelope_page 1 [base_unit ''Appetizers''], envelope_page 2 [base_unit ''Entrees'']]"

definition complete_run :: files where
  "complete_run =
     [UPLOADED_PDF_PATH \<mapsto> pdf_bytes,
      PHASE2_INPUT_REVIEWED \<mapsto> JsonText two_page_categories,
      PHASE2_FINAL_ITEMS \<mapsto> JsonText two_page_items,
      PHASE3_FINAL_BASES \<mapsto> JsonText two_page_bases,
      PHASE4_FINAL_ITEMS_ADDONS \<mapsto> JsonText two_page_addons]"

definition edited_items :: Phase3ItemsPayload where
  "edited_items =
     Phase3ItemsPayload ''Amici''
       [[(''page_number'', JInt 1), (''categories'', JArr [items_unit ''Small Plates''])],
        [(''page_number'', JInt 2), (''categories'', JArr [items_unit ''Entrees''])]]"

definition edited_items_json :: json where
  "edited_items_json =
     envelope [envelope_page 1 [items_unit ''Small Plates''],
               envelope_page 2 [items_unit ''Entrees'']]"

definition complete_session :: session_state where
  "complete_session =
     [''phase1_result'' \<mapsto> two_page_categories, ''phase2_result'' \<mapsto> two_page_items,
      ''phase3_result'' \<mapsto> two_page_bases, ''phase4_result'' \<mapsto> two_page_addons]"

text \<open>A review whose categories carry, besides the fields of the schema, the key
  \<^verbatim>\<open>name\<close>: the lenient model accepts it and the file keeps the body as it came.\<close>

definition named_category :: "string \<Rightarrow> json" where
  "named_category name =
     JObj [(''name'', JStr name), (''name_raw'', JStr name), (''subcategories'', JArr [])]"

definition named_review :: Phase2CategoriesPayload where
  "named_review =
     Phase2CategoriesPayload ''Amici''
       [[(''page_number'', JInt 1),
         (''data'', JObj [(''categories'', JArr [named_category ''Appetizers''])])],
        [(''page_number'', JInt 2),
         (''data'', JObj [(''categories'',
                           JArr [named_category ''Entrees'', named_category ''Desserts''])])]]"

definition uploaded :: files where
  "uploaded = [UPLOADED_PDF_PATH \<mapsto> pdf_bytes]"

definition named_files :: files where
  "named_files = snd (update_phase1_categories exact_prim uploaded named_review)"
section \<open>Properties of validation\<close>

lemma map_of_skip_key:
  "k' \<noteq> k \<Longrightarrow> map_of (xs @ (k, v) # ys) k' = map_of (xs @ ys) k'"
  by (simp add: map_add_def split: option.splits)

lemma validate_fields_skip_key:
  "k \<notin> set (map field_name fs) \<Longrightarrow>
   validate_fields prim fs (xs @ (k, v) # ys) = validate_fields prim fs (xs @ ys)"
proof (induction fs)
  case Nil
  show ?case by simp
next
  case (Cons f fs)
  obtain k' t d where f: "f = Field k' t d" by (cases f)
  from Cons.prems f have ne: "k' \<noteq> k" and rest: "k \<notin> set (map field_name fs)" by auto
  show ?case
    by (simp add: f map_of_skip_key [OF ne] Cons.IH [OF rest] del: map_of_append
             split: option.splits)
qed

lemma validate_fields_keys:
  "validate_fields prim fs kvs = Some r \<Longrightarrow> map fst r = map field_name fs"
proof (induction fs arbitrary: r)
  case Nil
  then show ?case by simp
next
  case (Cons f fs)
  obtain k' t d where f: "f = Field k' t d" by (cases f)
  from Cons.prems show ?case
    by (auto simp: f split: option.splits dest: Cons.IH)
qed

lemma model_validate_forbid:
  assumes "schema_extra S = Forbid" and "k \<notin> set (declared S)"
  shows "model_validate prim S (JObj (xs @ (k, v) # ys)) = Inl ValidationError"
proof -
  obtain n ex fs where S: "S = Schema n ex fs" by (cases S)
  from assms show ?thesis
    by (auto simp: S model_validate_def declared_def)
qed

lemma model_validate_ignore:
  assumes "schema_extra S = Ignore" and "k \<notin> set (declared S)"
  shows "model_validate prim S (JObj (xs @ (k, v) # ys)) = model_validate prim S (JObj (xs @ ys))"
proof -
  obtain n ex fs where S: "S = Schema n ex fs" by (cases S)
  from assms show ?thesis
    by (simp add: S model_validate_def declared_def validate_fields_skip_key)
qed

lemma model_validate_keys:
  assumes "model_validate prim S obj = Inr r"
  shows "\<exists>kvs. r = JObj kvs \<and> map fst kvs = declared S"
proof -
  obtain n ex fs where S: "S = Schema n ex fs" by (cases S)
  from assms show ?thesis
    by (auto simp: S model_validate_def declared_def
             split: json.splits if_splits option.splits dest: validate_fields_keys)
qed

lemma stage_schemas_extra:
  "S \<in> set (stage_schemas m) \<Longrightarrow> schema_extra S = model_config m"
  by (auto simp: stage_schemas_def Categories_def CategorywithItems_def CategoryBase_def
                 CategoryItemAddons_def)

lemma extra_field_not_null:
  "extra_field t v v' \<Longrightarrow> v \<noteq> JNull \<and> v' \<noteq> JNull"
  "extra_field_model S v v' \<Longrightarrow> v \<noteq> JNull \<and> v' \<noteq> JNull"
  by (induction rule: extra_field_extra_field_model.inducts) simp_all

lemma uniform_fields_member:
  "uniform_fields ex fs \<Longrightarrow> Field f t d \<in> set fs \<Longrightarrow> uniform_type ex t"
proof (induction fs)
  case Nil
  then show ?case by simp
next
  case (Cons g fs)
  obtain k' t' d' where g: "g = Field k' t' d'" by (cases g)
  from Cons show ?case by (auto simp: g)
qed

lemma map_of_replace:
  "f \<notin> set (map fst xs) \<Longrightarrow> map_of (xs @ (f, u) # ys) f = Some u"
  "k \<noteq> f \<Longrightarrow> map_of (xs @ (f, u') # ys) k = map_of (xs @ (f, u) # ys) k"
proof -
  assume "f \<notin> set (map fst xs)"
  then have "map_of xs f = None" by (simp add: map_of_eq_None_iff)
  then show "map_of (xs @ (f, u) # ys) f = Some u" by (simp add: map_add_def)
next
  assume "k \<noteq> f"
  then show "map_of (xs @ (f, u') # ys) k = map_of (xs @ (f, u) # ys) k"
    by (simp add: map_add_def split: option.splits)
qed

lemma validate_fields_fails:
  "Field f t d \<in> set fs \<Longrightarrow> map_of kvs f = Some u' \<Longrightarrow> validate_type prim t u' = None \<Longrightarrow>
   validate_fields prim fs kvs = None"
proof (induction fs)
  case Nil
  then show ?case by simp
next
  case (Cons g fs)
  obtain k' t' d' where g: "g = Field k' t' d'" by (cases g)
  show ?case
  proof (cases "g = Field f t d")
    case True
    with Cons.prems show ?thesis by simp
  next
    case False
    with Cons.prems have "Field f t d \<in> set fs" by simp
    from Cons.IH [OF this Cons.prems(2,3)] show ?thesis
      by (simp add: g split: option.splits)
  qed
qed

lemma validate_fields_replace:
  assumes "f \<notin> set (map fst xs)"
    and "\<forall>t d. Field f t d \<in> set fs \<longrightarrow> validate_type prim t u' = validate_type prim t u"
  shows "validate_fields prim fs (xs @ (f, u') # ys) = validate_fields prim fs (xs @ (f, u) # ys)"
  using assms(2)
proof (induction fs)
  case Nil
  show ?case by simp
next
  case (Cons g fs)
  obtain k' t' d' where g: "g = Field k' t' d'" by (cases g)
  from Cons.prems have rest: "\<forall>t d. Field f t d \<in> set fs \<longrightarrow>
                                validate_type prim t u' = validate_type prim t u" by simp
  note IH = Cons.IH [OF rest]
  show ?case
  proof (cases "k' = f")
    case True
    with Cons.prems g have eq: "validate_type prim t' u' = validate_type prim t' u" by simp
    have m1: "map_of (xs @ (f, u') # ys) f = Some u'" and m2: "map_of (xs @ (f, u) # ys) f = Some u"
      by (rule map_of_replace(1) [OF assms(1)])+
    from True IH show ?thesis
      by (simp add: g m1 m2 eq del: map_of_append cong: option.case_cong)
  next
    case False
    have m: "map_of (xs @ (f, u') # ys) k' = map_of (xs @ (f, u) # ys) k'"
      by (rule map_of_replace(2) [OF False])
    show ?thesis
      by (simp add: g m IH del: map_of_append cong: option.case_cong)
  qed
qed

lemma distinct_field_type:
  "distinct (map field_name fs) \<Longrightarrow> Field f t d \<in> set fs \<Longrightarrow> Field f t' d' \<in> set fs \<Longrightarrow>
   t' = t"
proof (induction fs)
  case Nil
  then show ?case by simp
next
  case (Cons g fs)
  then show ?case by (cases g) (auto simp: image_iff)
qed

lemma extra_field_ignored:
  "extra_field t v v' \<Longrightarrow> uniform_type Ignore t \<Longrightarrow>
   validate_type prim t v' = validate_type prim t v"
  "extra_field_model S v v' \<Longrightarrow> uniform Ignore S \<Longrightarrow>
   validate_model prim S v' = validate_model prim S v"
proof (induction rule: extra_field_extra_field_model.inducts)
  case (here k S xs ys v)
  obtain n ex fs where S: "S = Schema n ex fs" by (cases S)
  from here show ?case
    by (simp add: S declared_def validate_fields_skip_key)
next
  case (inside f t d S xs u u' ys)
  obtain n ex fs where S: "S = Schema n ex fs" by (cases S)
  from inside.prems S have ex: "ex = Ignore" and dist: "distinct (map field_name fs)"
    and uf: "uniform_fields Ignore fs" by simp_all
  from inside.hyps(1) S have mem: "Field f t d \<in> set fs" by simp
  from uniform_fields_member [OF uf mem] inside.IH
  have eq: "validate_type prim t u' = validate_type prim t u" by simp
  have "\<forall>t' d'. Field f t' d' \<in> set fs \<longrightarrow> validate_type prim t' u' = validate_type prim t' u"
    using distinct_field_type [OF dist mem] eq by blast
  from validate_fields_replace [OF inside.hyps(2) this] ex show ?case
    by (simp add: S)
next
  case (model S v v')
  then show ?case by simp
next
  case (optional t v v')
  from extra_field_not_null(1) [OF optional.hyps] optional show ?case by simp
next
  case (element t u u' us ws)
  then have eq: "validate_type prim t u' = validate_type prim t u" by simp
  have "validate_list prim t (us @ u' # ws) = validate_list prim t (us @ u # ws)"
    by (induction us) (simp_all add: eq cong: option.case_cong)
  then show ?case by simp
qed

lemma extra_field_forbidden:
  "extra_field t v v' \<Longrightarrow> uniform_type Forbid t \<Longrightarrow> validate_type prim t v' = None"
  "extra_field_model S v v' \<Longrightarrow> uniform Forbid S \<Longrightarrow> validate_model prim S v' = None"
proof (induction rule: extra_field_extra_field_model.inducts)
  case (here k S xs ys v)
  obtain n ex fs where S: "S = Schema n ex fs" by (cases S)
  from here show ?case
    by (auto simp: S declared_def)
next
  case (inside f t d S xs u u' ys)
  obtain n ex fs where S: "S = Schema n ex fs" by (cases S)
  from inside.prems S have uf: "uniform_fields Forbid fs" by simp
  from inside.hyps(1) S have mem: "Field f t d \<in> set fs" by simp
  from uniform_fields_member [OF uf mem] inside.IH
  have none: "validate_type prim t u' = None" by simp
  from validate_fields_fails [OF mem map_of_replace(1) [OF inside.hyps(2)] none]
  show ?case by (simp add: S del: map_of_append)
next
  case (model S v v')
  then show ?case by simp
next
  case (optional t v v')
  from extra_field_not_null(1) [OF optional.hyps] optional show ?case by simp
next
  case (element t u u' us ws)
  then have none: "validate_type prim t u' = None" by simp
  have "validate_list prim t (us @ u' # ws) = None"
    by (induction us) (simp_all add: none split: option.splits)
  then show ?case by simp
qed

lemma stage_schemas_uniform:
  "S \<in> set (stage_schemas m) \<Longrightarrow> uniform (model_config m) S"
  by (cases m)
     (auto simp: stage_schemas_def Categories_def CategoryRef_def SubcategoryRef_def
                 CategorywithItems_def CategoryItems_def SubcategoryItems_def Item_def
                 Variation_def Money_def PriceByVariation_def CategoryBase_def BaseOption_def
                 CategoryItemAddons_def SubcategoryAddons_def ItemsAddons_def AddonOption_def
                 str_def)

lemma priced_category_extra_field:
  "extra_field_model (CategorywithItems m) (priced_category plain_price) (priced_category taxed_price)"
proof -
  have money: "extra_field_model (Money m) plain_price taxed_price"
    using here [of "''tax''" "Money m" "[(''amount'', JFloat ''12.5'')]" "[]" "JFloat ''1.0''"]
    by (simp add: declared_def Money_def plain_price_def taxed_price_def)
  then have "extra_field (TOptional (TModel (Money m))) plain_price taxed_price"
    by (intro optional model)
  from inside [of "''base_price''" "TOptional (TModel (Money m))" "Some JNull" "Item m"
                  "[(''name_raw'', JStr ''Ravioli'')]" plain_price taxed_price "[]", OF _ _ this]
  have item: "extra_field_model (Item m)
                (JObj [(''name_raw'', JStr ''Ravioli''), (''base_price'', plain_price)])
                (JObj [(''name_raw'', JStr ''Ravioli''), (''base_price'', taxed_price)])"
    by (simp add: Item_def)
  from element [of "TModel (Item m)" _ _ "[]" "[]", OF model [OF item]]
  have items: "extra_field (TList (TModel (Item m)))
                 (JArr [JObj [(''name_raw'', JStr ''Ravioli''), (''base_price'', plain_price)]])
                 (JArr [JObj [(''name_raw'', JStr ''Ravioli''), (''base_price'', taxed_price)]])"
    by simp
  from inside [of "''items''" "TList (TModel (Item m))" "Some (JArr [])" "CategoryItems m"
                  "[]" _ _ "[]", OF _ _ items]
  have group: "extra_field_model (CategoryItems m)
                 (JObj [(''items'',
                         JArr [JObj [(''name_raw'', JStr ''Ravioli''), (''base_price'', plain_price)]])])
                 (JObj [(''items'',
                         JArr [JObj [(''name_raw'', JStr ''Ravioli''),
                                     (''base_price'', taxed_price)]])])"
    by (simp add: CategoryItems_def)
  from element [of "TModel (CategoryItems m)" _ _ "[]" "[]", OF model [OF group]]
  have groups: "extra_field (TList (TModel (CategoryItems m)))
                 (JArr [JObj [(''items'',
                         JArr [JObj [(''name_raw'', JStr ''Ravioli''), (''base_price'', plain_price)]])]])
                 (JArr [JObj [(''items'',
                         JArr [JObj [(''name_raw'', JStr ''Ravioli''),
                                     (''base_price'', taxed_price)]])]])"
    by simp
  from inside [of "''category_items''" "TList (TModel (CategoryItems m))" "Some (JArr [])"
                  "CategorywithItems m" "[(''name_raw'', JStr ''Entrees'')]" _ _
                  "[(''note'', JStr ''none'')]", OF _ _ groups]
  show ?thesis
    by (simp add: CategorywithItems_def priced_category_def)
qed

text \<open>
  Claim C5 (strict versus lenient validation). Let \<open>S\<close> be the output schema of a stage
  and let \<open>obj'\<close> be a response object \<open>obj\<close> with one field added that the schema does
  not declare at its place: in the object itself, or in an object nested in it at any
  depth under declared fields, through lists and optional values (a category, an item,
  an option, a plain_price). Read from \<^verbatim>\<open>utils/model.py\<close> (strict, \<^verbatim>\<open>extra="forbid"\<close> on
  every class), validation of \<open>obj'\<close> is an error. Read from \<^verbatim>\<open>backend/utils/model.py\<close>
  (lenient, \<^verbatim>\<open>extra="ignore"\<close> on every class), validation of \<open>obj'\<close> gives what it
  gives on \<open>obj\<close>: an object that is valid without the field is accepted with it, and the
  validated result is the one without the field. For a field added to the object itself
  the result has the declared fields only. Both modes exist, one per module.
\<close>

theorem unknown_field_strict_rejects_lenient_drops:
  "(S \<in> set (stage_schemas Utils_model) \<and> extra_field_model S obj obj' \<longrightarrow>
      model_validate prim S obj' = Inl ValidationError) \<and>
   (S \<in> set (stage_schemas Backend_utils_model) \<and> extra_field_model S obj obj' \<longrightarrow>
      model_validate prim S obj' = model_validate prim S obj \<and>
      (\<forall>r. model_validate prim S obj = Inr r \<longrightarrow> model_validate prim S obj' = Inr r)) \<and>
   (S \<in> set (stage_schemas Utils_model) \<and> k \<notin> set (declared S) \<longrightarrow>
      model_validate prim S (JObj (xs @ (k, v) # ys)) = Inl ValidationError) \<and>
   (S \<in> set (stage_schemas Backend_utils_model) \<and> k \<notin> set (declared S) \<longrightarrow>
      model_validate prim S (JObj (xs @ (k, v) # ys)) = model_validate prim S (JObj (xs @ ys)) \<and>
      (\<forall>r. model_validate prim S (JObj (xs @ ys)) = Inr r \<longrightarrow>
         model_validate prim S (JObj (xs @ (k, v) # ys)) = Inr r \<and>
         (\<exists>kvs. r = JObj kvs \<and> k \<notin> set (map fst kvs))))"
proof (intro conjI impI)
  assume a: "S \<in> set (stage_schemas Utils_model) \<and> extra_field_model S obj obj'"
  then have "uniform Forbid S" using stage_schemas_uniform [of S Utils_model] by simp
  with a have "validate_model prim S obj' = None"
    using extra_field_forbidden(2) [of S obj obj' prim] by blast
  then show "model_validate prim S obj' = Inl ValidationError" by (simp add: model_validate_def)
next
  assume a: "S \<in> set (stage_schemas Backend_utils_model) \<and> extra_field_model S obj obj'"
  then have "uniform Ignore S" using stage_schemas_uniform [of S Backend_utils_model] by simp
  with a have "validate_model prim S obj' = validate_model prim S obj"
    using extra_field_ignored(2) [of S obj obj' prim] by blast
  then show eq: "model_validate prim S obj' = model_validate prim S obj"
    by (simp add: model_validate_def)
  then show "\<forall>r. model_validate prim S obj = Inr r \<longrightarrow> model_validate prim S obj' = Inr r"
    by simp
next
  assume a: "S \<in> set (stage_schemas Utils_model) \<and> k \<notin> set (declared S)"
  then have "schema_extra S = Forbid"
    using stage_schemas_extra [of S Utils_model] by simp
  with a show "model_validate prim S (JObj (xs @ (k, v) # ys)) = Inl ValidationError"
    by (simp add: model_validate_forbid)
next
  assume a: "S \<in> set (stage_schemas Backend_utils_model) \<and> k \<notin> set (declared S)"
  then have ex: "schema_extra S = Ignore"
    using stage_schemas_extra [of S Backend_utils_model] by simp
  from a have k: "k \<notin> set (declared S)" by simp
  show eq: "model_validate prim S (JObj (xs @ (k, v) # ys)) = model_validate prim S (JObj (xs @ ys))"
    by (rule model_validate_ignore [OF ex k])
  show "\<forall>r. model_validate prim S (JObj (xs @ ys)) = Inr r \<longrightarrow>
         model_validate prim S (JObj (xs @ (k, v) # ys)) = Inr r \<and>
         (\<exists>kvs. r = JObj kvs \<and> k \<notin> set (map fst kvs))"
  proof (intro allI impI conjI)
    fix r
    assume r: "model_validate prim S (JObj (xs @ ys)) = Inr r"
    with eq show "model_validate prim S (JObj (xs @ (k, v) # ys)) = Inr r" by simp
    from model_validate_keys [OF r]
    obtain kvs where kvs: "r = JObj kvs" "map fst kvs = declared S" by blast
    from kvs(2) k have "k \<notin> set (map fst kvs)" by simp
    with kvs(1) show "\<exists>kvs. r = JObj kvs \<and> k \<notin> set (map fst kvs)" by blast
  qed
qed

theorem unknown_field_strict_rejects_lenient_drops_witness:
  "model_validate exact_prim (CategorywithItems Utils_model) (priced_category plain_price)
     = Inr priced_validated \<and>
   model_validate exact_prim (CategorywithItems Utils_model) (priced_category taxed_price)
     = Inl ValidationError \<and>
   model_validate exact_prim (CategorywithItems Backend_utils_model) (priced_category taxed_price)
     = Inr priced_validated \<and>
   model_validate exact_prim (Categories Utils_model)
     (JObj [(''categories'', JArr []), (''confidence'', JInt 1)]) = Inl ValidationError \<and>
   model_validate exact_prim (Categories Backend_utils_model)
     (JObj [(''categories'', JArr []), (''confidence'', JInt 1)])
     = Inr (JObj [(''categories'', JArr [])])"
proof -
  have sm: "CategorywithItems Utils_model \<in> set (stage_schemas Utils_model)"
    and lm: "CategorywithItems Backend_utils_model \<in> set (stage_schemas Backend_utils_model)"
    by (simp_all add: stage_schemas_def)
  have plain: "model_validate exact_prim (CategorywithItems Utils_model) (priced_category plain_price)
                 = Inr priced_validated"
    by code_simp
  have lplain: "model_validate exact_prim (CategorywithItems Backend_utils_model)
                  (priced_category plain_price) = Inr priced_validated"
    by code_simp
  from unknown_field_strict_rejects_lenient_drops
         [of "CategorywithItems Utils_model" "priced_category plain_price"
             "priced_category taxed_price" exact_prim]
       sm priced_category_extra_field [of Utils_model]
  have strict: "model_validate exact_prim (CategorywithItems Utils_model)
                  (priced_category taxed_price) = Inl ValidationError"
    by blast
  from unknown_field_strict_rejects_lenient_drops
         [of "CategorywithItems Backend_utils_model" "priced_category plain_price"
             "priced_category taxed_price" exact_prim]
       lm priced_category_extra_field [of Backend_utils_model] lplain
  have lenient: "model_validate exact_prim (CategorywithItems Backend_utils_model)
                   (priced_category taxed_price) = Inr priced_validated"
    by simp
  have s: "Categories Utils_model \<in> set (stage_schemas Utils_model) \<and>
           ''confidence'' \<notin> set (declared (Categories Utils_model))"
    by (simp add: stage_schemas_def Categories_def declared_def)
  have l: "Categories Backend_utils_model \<in> set (stage_schemas Backend_utils_model) \<and>
           ''confidence'' \<notin> set (declared (Categories Backend_utils_model))"
    by (simp add: stage_schemas_def Categories_def declared_def)
  have r: "model_validate exact_prim (Categories Backend_utils_model)
             (JObj ([(''categories'', JArr [])] @ []))
           = Inr (JObj [(''categories'', JArr [])])"
    by (simp add: model_validate_def Categories_def)
  from s l r
    unknown_field_strict_rejects_lenient_drops
      [of "Categories Utils_model" _ _ exact_prim "''confidence''"
          "[(''categories'', JArr [])]" "JInt 1" "[]"]
    unknown_field_strict_rejects_lenient_drops
      [of "Categories Backend_utils_model" _ _ exact_prim "''confidence''"
          "[(''categories'', JArr [])]" "JInt 1" "[]"]
  have top: "model_validate exact_prim (Categories Utils_model)
     (JObj [(''categories'', JArr []), (''confidence'', JInt 1)]) = Inl ValidationError \<and>
   model_validate exact_prim (Categories Backend_utils_model)
     (JObj [(''categories'', JArr []), (''confidence'', JInt 1)])
     = Inr (JObj [(''categories'', JArr [])])"
    by simp
  from plain strict lenient top show ?thesis by (intro conjI) simp_all
qed

section \<open>Properties of the bounded executor\<close>

lemma admit_sem:
  "admit sem waiting running = (sem', waiting', running') \<Longrightarrow>
   sem' + length running' = sem + length running"
  by (induction sem waiting running rule: admit.induct) (auto split: if_splits)

lemma admit_mset:
  "admit sem waiting running = (sem', waiting', running') \<Longrightarrow>
   mset waiting' + mset running' = mset waiting + mset running"
  by (induction sem waiting running rule: admit.induct) (auto split: if_splits)

lemma admit_stops:
  "admit sem waiting running = (sem', waiting', running') \<Longrightarrow> sem' = 0 \<or> waiting' = []"
  by (induction sem waiting running rule: admit.induct) (auto split: if_splits)

lemma mset_remove_nth:
  "k < length xs \<Longrightarrow> add_mset (xs ! k) (mset (take k xs @ drop (Suc k) xs)) = mset xs"
proof -
  assume k: "k < length xs"
  have "mset xs = mset (take k xs @ xs ! k # drop (Suc k) xs)"
    using id_take_nth_drop [OF k] by simp
  then show ?thesis by simp
qed

lemma run_tasks_step:
  assumes "admit sem waiting running = (sem', waiting', running')"
  shows "run_tasks order sem waiting running =
     (if running' = [] then (if waiting' = [] then Some ([], sem') else None)
      else case run_tasks (tl order) (Suc sem') waiting'
                  (take (pick order (length running')) running' @
                   drop (Suc (pick order (length running'))) running') of
             None \<Rightarrow> None
           | Some (trace, sem_end) \<Rightarrow>
               Some (\<lparr>sem_value = sem', in_flight = running',
                       completes = running' ! pick order (length running')\<rparr> # trace,
                     sem_end))"
  by (subst run_tasks.simps) (simp add: assms Let_def)

lemma run_tasks_induct:
  assumes "\<And>order sem waiting running.
     (\<And>sem' waiting' running'.
         admit sem waiting running = (sem', waiting', running') \<Longrightarrow> running' \<noteq> [] \<Longrightarrow>
         P (tl order) (Suc sem') waiting'
           (take (pick order (length running')) running' @
            drop (Suc (pick order (length running'))) running')) \<Longrightarrow>
     P order sem waiting running"
  shows "P order sem waiting running"
proof (induction order sem waiting running rule: run_tasks.induct)
  case (1 order sem waiting running)
  show ?case
  proof (rule assms)
    fix sem' waiting' running'
    assume adm: "admit sem waiting running = (sem', waiting', running')"
      and ne: "running' \<noteq> []"
    show "P (tl order) (Suc sem') waiting'
           (take (pick order (length running')) running' @
            drop (Suc (pick order (length running'))) running')"
      by (rule "1.IH" [OF adm [symmetric] refl ne refl])
  qed
qed

lemma run_tasks_sem:
  "run_tasks order sem waiting running = Some (trace, sem_end) \<Longrightarrow>
   (\<forall>s \<in> set trace. sem_value s + length (in_flight s) = sem + length running) \<and>
   sem_end = sem + length running"
proof (induction order sem waiting running arbitrary: trace sem_end rule: run_tasks_induct)
  case (1 order sem waiting running)
  obtain sem' waiting' running' where adm: "admit sem waiting running = (sem', waiting', running')"
    by (cases "admit sem waiting running") auto
  note inv = admit_sem [OF adm]
  show ?case
  proof (cases "running' = []")
    case True
    with "1.prems" inv show ?thesis
      by (auto simp: run_tasks_step [OF adm] split: if_splits)
  next
    case False
    define k where "k = pick order (length running')"
    have k: "k < length running'" using False by (simp add: k_def pick_less)
    let ?rest = "take k running' @ drop (Suc k) running'"
    from "1.prems" False obtain trace' where
      rec: "run_tasks (tl order) (Suc sem') waiting' ?rest = Some (trace', sem_end)" and
      tr: "trace = \<lparr>sem_value = sem', in_flight = running', completes = running' ! k\<rparr> # trace'"
      by (auto simp: run_tasks_step [OF adm] k_def split: option.splits)
    have len: "Suc sem' + length ?rest = sem + length running"
      using k inv by simp
    from "1.IH" [OF adm False rec [unfolded k_def]] len
    have "(\<forall>s \<in> set trace'. sem_value s + length (in_flight s) = sem + length running) \<and>
          sem_end = sem + length running" by (simp add: k_def)
    with tr inv show ?thesis by simp
  qed
qed

lemma run_tasks_mset:
  "run_tasks order sem waiting running = Some (trace, sem_end) \<Longrightarrow>
   mset (map completes trace) = mset waiting + mset running"
proof (induction order sem waiting running arbitrary: trace sem_end rule: run_tasks_induct)
  case (1 order sem waiting running)
  obtain sem' waiting' running' where adm: "admit sem waiting running = (sem', waiting', running')"
    by (cases "admit sem waiting running") auto
  note inv = admit_mset [OF adm]
  show ?case
  proof (cases "running' = []")
    case True
    with "1.prems" inv show ?thesis
      by (auto simp: run_tasks_step [OF adm] split: if_splits)
  next
    case False
    define k where "k = pick order (length running')"
    have k: "k < length running'" using False by (simp add: k_def pick_less)
    let ?rest = "take k running' @ drop (Suc k) running'"
    from "1.prems" False obtain trace' where
      rec: "run_tasks (tl order) (Suc sem') waiting' ?rest = Some (trace', sem_end)" and
      tr: "trace = \<lparr>sem_value = sem', in_flight = running', completes = running' ! k\<rparr> # trace'"
      by (auto simp: run_tasks_step [OF adm] k_def split: option.splits)
    from "1.IH" [OF adm False rec [unfolded k_def]]
    have "mset (map completes trace') = mset waiting' + mset ?rest" by (simp add: k_def)
    then have "mset (map completes trace) = mset waiting' + add_mset (running' ! k) (mset ?rest)"
      by (simp add: tr)
    also have "\<dots> = mset waiting' + mset running'"
      by (simp only: mset_remove_nth [OF k])
    finally show ?thesis using inv by simp
  qed
qed

lemma run_tasks_returns:
  "0 < sem + length running \<or> waiting = [] \<Longrightarrow> run_tasks order sem waiting running \<noteq> None"
proof (induction order sem waiting running rule: run_tasks_induct)
  case (1 order sem waiting running)
  obtain sem' waiting' running' where adm: "admit sem waiting running = (sem', waiting', running')"
    by (cases "admit sem waiting running") auto
  show ?case
  proof (cases "running' = []")
    case True
    from admit_sem [OF adm] admit_stops [OF adm] admit_size [OF adm] True "1.prems"
    have "waiting' = []" by auto
    with True show ?thesis by (simp add: run_tasks_step [OF adm])
  next
    case False
    have "run_tasks (tl order) (Suc sem') waiting'
           (take (pick order (length running')) running' @
            drop (Suc (pick order (length running'))) running') \<noteq> None"
      by (rule "1.IH" [OF adm False]) simp
    with False show ?thesis by (auto simp: run_tasks_step [OF adm])
  qed
qed

lemma collect_Returns:
  "(\<forall>i \<in> set children. result i = Some (Inr (g i))) \<Longrightarrow>
   collect result children = Returns (map g children)"
  by (induction children) auto

lemma collect_ReturnsD:
  "collect result children = Returns rs \<Longrightarrow>
   length rs = length children \<and> (\<forall>j < length children. result (children ! j) = Some (Inr (rs ! j)))"
proof (induction children arbitrary: rs)
  case Nil
  then show ?case by simp
next
  case (Cons i children)
  from Cons.prems obtain x xs where
    x: "result i = Some (Inr x)" and xs: "collect result children = Returns xs" and rs: "rs = x # xs"
    by (auto split: option.splits sum.splits outcome.splits)
  from Cons.IH [OF xs] x rs show ?case
    by (auto simp: nth_Cons split: nat.splits)
qed

lemma first_exception_None:
  "first_exception finished = None \<longleftrightarrow> (\<forall>d \<in> set finished. \<exists>x. snd d = Inr x)"
  by (induction finished rule: first_exception.induct) auto

lemma first_exception_Some:
  "first_exception finished = Some e \<Longrightarrow> \<exists>i. (i, Inl e) \<in> set finished"
  by (induction finished rule: first_exception.induct) auto

lemma zip_upt_member:
  "(i, c) \<in> set (zip [0..<length coros] coros) \<longleftrightarrow> i < length coros \<and> coros ! i = c"
proof
  assume "(i, c) \<in> set (zip [0..<length coros] coros)"
  then show "i < length coros \<and> coros ! i = c" by (auto simp: set_zip)
next
  assume a: "i < length coros \<and> coros ! i = c"
  then have "zip [0..<length coros] coros ! i = (i, c)" by simp
  moreover have "i < length (zip [0..<length coros] coros)" using a by simp
  ultimately show "(i, c) \<in> set (zip [0..<length coros] coros)" by (metis nth_mem)
qed

lemma gather_run_finished:
  assumes "gather_run order coros limit = Some (trace, sem_end)"
  shows "mset (map completes trace) = mset (zip [0..<length coros] coros)"
  using run_tasks_mset [OF assms [unfolded gather_run_def]] by simp

lemma finished_lookup:
  assumes "mset finished = mset (zip [0..<length coros] coros)" and "i < length coros"
  shows "map_of finished i = Some (coros ! i)"
proof -
  have "mset (map fst finished) = mset (map fst (zip [0..<length coros] coros))"
    using assms(1) by (metis mset_map)
  then have "mset (map fst finished) = mset [0..<length coros]" by simp
  then have d: "distinct (map fst finished)"
    by (metis distinct_upt mset_eq_imp_distinct_iff)
  have "(i, coros ! i) \<in> set (zip [0..<length coros] coros)"
    using assms(2) by (simp add: zip_upt_member)
  then have "(i, coros ! i) \<in> set finished"
    using assms(1) by (metis mset_eq_setD)
  with d show ?thesis by simp
qed

lemma finished_member:
  assumes "mset finished = mset (zip [0..<length coros] coros)" and "(i, c) \<in> set finished"
  shows "i < length coros \<and> coros ! i = c"
proof -
  from assms have "(i, c) \<in> set (zip [0..<length coros] coros)"
    by (metis mset_eq_setD)
  then show ?thesis by (simp add: zip_upt_member)
qed

lemma bounded_gather_ReturnsD:
  assumes "bounded_gather order coros limit = Returns rs"
  shows "length rs = length coros \<and> (\<forall>i < length coros. coros ! i = Inr (rs ! i))"
proof -
  from assms obtain trace sem_end where
    run: "gather_run order coros limit = Some (trace, sem_end)" and
    res: "gather_result (length coros) (map completes trace) = Returns rs"
    by (auto simp: bounded_gather_def split: if_splits option.splits)
  let ?fin = "map completes trace"
  from res have col: "collect (map_of ?fin) [0..<length coros] = Returns rs"
    by (auto simp: gather_result_def split: option.splits)
  note fin = gather_run_finished [OF run]
  from collect_ReturnsD [OF col]
  have len: "length rs = length coros"
    and each: "\<forall>j < length coros. map_of ?fin j = Some (Inr (rs ! j))" by auto
  have "\<forall>i < length coros. coros ! i = Inr (rs ! i)"
  proof (intro allI impI)
    fix i assume i: "i < length coros"
    from each i have "map_of ?fin i = Some (Inr (rs ! i))" by simp
    with finished_lookup [OF fin i] show "coros ! i = Inr (rs ! i)" by simp
  qed
  with len show ?thesis by simp
qed

lemma gather_run_returns:
  "0 < limit \<Longrightarrow> \<exists>trace sem_end. gather_run order coros limit = Some (trace, sem_end)"
  using run_tasks_returns [of "nat limit" "[]" "zip [0..<length coros] coros" order]
  by (auto simp: gather_run_def)

lemma bounded_gather_all_return:
  assumes "0 < limit"
  shows "bounded_gather order (map Inr xs) limit = Returns xs"
proof -
  let ?coros = "map Inr xs :: (error + 'a) list"
  from gather_run_returns [OF assms] obtain trace sem_end where
    run: "gather_run order ?coros limit = Some (trace, sem_end)" by blast
  let ?fin = "map completes trace"
  note fin = gather_run_finished [OF run]
  have noexc: "first_exception ?fin = None"
    unfolding first_exception_None
  proof
    fix d assume "d \<in> set ?fin"
    then have "(fst d, snd d) \<in> set ?fin" by simp
    from finished_member [OF fin this]
    have a: "fst d < length xs" and b: "map Inr xs ! fst d = snd d" by simp_all
    from b nth_map [OF a, of Inr] have "snd d = Inr (xs ! fst d)" by metis
    then show "\<exists>x. snd d = Inr x" by blast
  qed
  have "\<forall>i \<in> set [0..<length ?coros]. map_of ?fin i = Some (Inr (xs ! i))"
    using finished_lookup [OF fin] by simp
  from collect_Returns [of "[0..<length ?coros]" "map_of ?fin" "\<lambda>i. xs ! i", OF this]
  have "collect (map_of ?fin) [0..<length ?coros] = Returns xs"
    by (simp add: map_nth)
  with noexc run assms show ?thesis
    by (simp add: bounded_gather_def gather_result_def)
qed

lemma bounded_gather_raises:
  assumes "0 < limit" and "Inl e \<in> set coros"
  shows "\<exists>e'. bounded_gather order coros limit = Raises e' \<and> Inl e' \<in> set coros"
proof -
  from gather_run_returns [OF assms(1)] obtain trace sem_end where
    run: "gather_run order coros limit = Some (trace, sem_end)" by blast
  let ?fin = "map completes trace"
  note fin = gather_run_finished [OF run]
  from assms(2) obtain i where i: "i < length coros" "coros ! i = Inl e"
    by (auto simp: in_set_conv_nth)
  have "(i, Inl e) \<in> set (zip [0..<length coros] coros)"
    using i by (simp add: zip_upt_member)
  then have mem: "(i, Inl e) \<in> set ?fin" using fin by (metis mset_eq_setD)
  have "first_exception ?fin \<noteq> None"
  proof
    assume "first_exception ?fin = None"
    then have "\<forall>d \<in> set ?fin. \<exists>x. snd d = Inr x" by (simp only: first_exception_None)
    with mem have "\<exists>x. snd (i, Inl e :: error + 'a) = Inr x" by blast
    then show False by simp
  qed
  then obtain e' where e': "first_exception ?fin = Some e'" by auto
  from first_exception_Some [OF e'] obtain j where "(j, Inl e') \<in> set ?fin" by blast
  from finished_member [OF fin this] have "Inl e' \<in> set coros" by (metis nth_mem)
  moreover from e' run assms(1) have "bounded_gather order coros limit = Raises e'"
    by (simp add: bounded_gather_def gather_result_def)
  ultimately show ?thesis by blast
qed

text \<open>
  Claim C2 (order preservation). Whatever the concurrency limit and whatever the order in
  which the tasks are over, a list returned by \<open>bounded_gather\<close> has one element per
  submitted task and its \<open>i\<close>-th element is the result of the \<open>i\<close>-th task. A list is
  returned indeed: with a positive limit, a batch whose tasks all return gives their
  results in submission order. (With limit \<open>0\<close> a non-empty batch never returns, and a
  negative limit is refused by the semaphore; see \<open>bounded_gather_no_slot\<close>.)
\<close>

theorem bounded_gather_order_preserved:
  "(bounded_gather order coros limit = Returns rs \<longrightarrow>
      length rs = length coros \<and> (\<forall>i < length coros. coros ! i = Inr (rs ! i))) \<and>
   (0 < limit \<longrightarrow> bounded_gather order (map Inr xs) limit = Returns xs)"
  using bounded_gather_ReturnsD [of order coros limit rs]
    bounded_gather_all_return [of limit order xs]
  by blast

theorem bounded_gather_order_preserved_witness:
  "(0 :: int) < 2 \<and>
   bounded_gather [1, 0, 2] (map Inr [10, 20, 30 :: nat]) 2 = Returns [10, 20, 30] \<and>
   length [10, 20, 30 :: nat] = length (map Inr [10, 20, 30 :: nat] :: (error + nat) list) \<and>
   (map Inr [10, 20, 30 :: nat] :: (error + nat) list) ! 2 = Inr ([10, 20, 30] ! 2)"
proof -
  have pos: "(0 :: int) < 2" by simp
  have two: "2 < length (map Inr [10, 20, 30 :: nat] :: (error + nat) list)" by simp
  from bounded_gather_order_preserved
         [of "[1, 0, 2]" "map Inr [10, 20, 30 :: nat]" 2 "[10, 20, 30]" "[10, 20, 30]"] pos two
  show ?thesis by blast
qed

lemma run_tasks_no_slot: "run_tasks order 0 (t # waiting) [] = None"
  by (simp add: run_tasks_step [of 0 "t # waiting" "[]" 0 "t # waiting" "[]"])

lemma bounded_gather_no_slot:
  "bounded_gather order (c # coros) 0 = Hangs" and
  "limit < 0 \<Longrightarrow> bounded_gather order coros limit = Raises ValueError"
proof -
  have "zip [0..<length (c # coros)] (c # coros) = (0, c) # zip [1..<Suc (length coros)] coros"
    by (simp add: upt_conv_Cons del: upt_Suc)
  then show "bounded_gather order (c # coros) 0 = Hangs"
    by (simp add: bounded_gather_def gather_run_def run_tasks_no_slot del: upt_Suc)
  show "limit < 0 \<Longrightarrow> bounded_gather order coros limit = Raises ValueError"
    by (simp add: bounded_gather_def)
qed

section \<open>Properties of the configuration\<close>

lemma of_char_digit_char: "d < 10 \<Longrightarrow> (of_char (digit_char d) :: nat) = 48 + d"
  by (simp add: digit_char_def)

lemma digit_of_digit_char: "d < 10 \<Longrightarrow> digit_of (digit_char d) = Some d"
  by (simp add: digit_of_def of_char_digit_char)

lemma digit_char_not_space: "d < 10 \<Longrightarrow> \<not> is_space (digit_char d)"
  by (simp add: is_space_def of_char_digit_char)

lemma digit_char_not_sign:
  assumes "d < 10"
  shows "digit_char d \<noteq> CHR ''_''" and "digit_char d \<noteq> CHR ''-''" and "digit_char d \<noteq> CHR ''+''"
proof -
  have "(of_char (digit_char d) :: nat) \<noteq> of_char CHR ''_''"
    and "(of_char (digit_char d) :: nat) \<noteq> of_char CHR ''-''"
    and "(of_char (digit_char d) :: nat) \<noteq> of_char CHR ''+''"
    using assms by (simp_all add: of_char_digit_char)
  then show "digit_char d \<noteq> CHR ''_''" and "digit_char d \<noteq> CHR ''-''"
    and "digit_char d \<noteq> CHR ''+''" by auto
qed

lemma digits_decimal: "digits (decimal n)"
proof (induction n rule: decimal.induct)
  case (1 n)
  show ?case
  proof (cases "n < 10")
    case True
    then show ?thesis by (subst decimal.simps) (auto simp: digits_def)
  next
    case False
    have "\<exists>d < 10. digit_char (n mod 10) = digit_char d"
      by (rule exI [of _ "n mod 10"]) simp
    with False "1.IH" show ?thesis
      by (subst decimal.simps) (auto simp: digits_def)
  qed
qed

lemma decimal_not_Nil: "decimal n \<noteq> []"
  by (subst decimal.simps) simp

lemma after_digit_digits:
  "digits s \<Longrightarrow> after_digit acc s = Some (numeral_value acc s)"
proof (induction acc s rule: after_digit.induct)
  case (1 acc)
  show ?case by (simp add: numeral_value_def)
next
  case (2 acc c)
  then obtain d where d: "d < 10" "c = digit_char d" by (auto simp: digits_def)
  then show ?case by (simp add: numeral_value_def digit_of_digit_char of_char_digit_char)
next
  case (3 acc c d cs)
  from "3.prems" obtain v where v: "v < 10" "c = digit_char v" by (auto simp: digits_def)
  from "3.prems" have rest: "digits (d # cs)" by (simp add: digits_def)
  from v have nu: "c \<noteq> CHR ''_''" by (simp add: digit_char_not_sign)
  have dv: "digit_of c = Some v" using v by (simp add: digit_of_digit_char)
  from "3.IH"(2) [OF nu dv rest] nu dv v show ?case
    by (simp add: numeral_value_def of_char_digit_char)
qed

lemma numeral_value_decimal: "numeral_value 0 (decimal n) = n"
proof (induction n rule: decimal.induct)
  case (1 n)
  show ?case
  proof (cases "n < 10")
    case True
    then show ?thesis
      by (subst decimal.simps) (simp add: numeral_value_def of_char_digit_char)
  next
    case False
    have m: "n mod 10 < 10" by simp
    from False "1.IH" have "numeral_value 0 (decimal (n div 10)) = n div 10" by simp
    with False m show ?thesis
      by (subst decimal.simps) (simp add: numeral_value_def of_char_digit_char)
  qed
qed

lemma unsigned_decimal: "unsigned (decimal n) = Some n"
proof -
  obtain c cs where s: "decimal n = c # cs"
    using decimal_not_Nil [of n] by (cases "decimal n") auto
  from digits_decimal [of n] s have dc: "digits (c # cs)" by simp
  then obtain v where v: "v < 10" "c = digit_char v" by (auto simp: digits_def)
  from dc have "digits cs" by (simp add: digits_def)
  then have "after_digit v cs = Some (numeral_value v cs)" by (rule after_digit_digits)
  moreover have "numeral_value v cs = numeral_value 0 (c # cs)"
    using v by (simp add: numeral_value_def of_char_digit_char)
  ultimately show ?thesis
    using v s numeral_value_decimal [of n] by (simp add: digit_of_digit_char)
qed

lemma strip_digits:
  assumes "digits s"
  shows "strip s = s"
proof -
  have d: "dropWhile is_space t = t" if "digits t" for t
    using that by (cases t) (auto simp: digits_def digit_char_not_space)
  have "digits (rev s)" using assms by (simp add: digits_def)
  with d [OF assms] d [of "rev s"] show ?thesis by (simp add: strip_def)
qed

lemma digit_count_digits:
  assumes "digits s"
  shows "digit_count s = length s"
proof -
  have "c \<noteq> CHR ''_''" if "c \<in> set s" for c
  proof -
    from assms that obtain d where "d < 10" "c = digit_char d" by (auto simp: digits_def)
    then show ?thesis by (simp add: digit_char_not_sign)
  qed
  then have "filter (\<lambda>c. c \<noteq> CHR ''_'') s = s" by (simp add: filter_id_conv)
  then show ?thesis by (simp add: digit_count_def)
qed

lemma py_int_decimal:
  assumes "length (decimal n) \<le> int_max_str_digits"
  shows "py_int (decimal n) = Inr (int n)"
proof -
  obtain c cs where s: "decimal n = c # cs"
    using decimal_not_Nil [of n] by (cases "decimal n") auto
  from digits_decimal [of n] s obtain v where v: "v < 10" "c = digit_char v"
    by (auto simp: digits_def)
  from v have sign: "c \<noteq> CHR ''-''" "c \<noteq> CHR ''+''" by (simp_all add: digit_char_not_sign)
  have "limited (decimal n) = Some n"
    using assms by (simp add: limited_def digit_count_digits [OF digits_decimal] unsigned_decimal)
  with s sign strip_digits [OF digits_decimal [of n]]
  show ?thesis by (simp add: py_int_def)
qed

lemma py_int_too_long:
  assumes "int_max_str_digits < length (decimal n)"
  shows "py_int (decimal n) = Inl ValueError"
proof -
  obtain c cs where s: "decimal n = c # cs"
    using decimal_not_Nil [of n] by (cases "decimal n") auto
  from digits_decimal [of n] s obtain v where v: "v < 10" "c = digit_char v"
    by (auto simp: digits_def)
  from v have sign: "c \<noteq> CHR ''-''" "c \<noteq> CHR ''+''" by (simp_all add: digit_char_not_sign)
  have "limited (decimal n) = None"
    using assms by (simp add: limited_def digit_count_digits [OF digits_decimal])
  with s sign strip_digits [OF digits_decimal [of n]]
  show ?thesis by (simp add: py_int_def)
qed

text \<open>What \<^verbatim>\<open>int\<close> makes of some values an operator may write.\<close>

lemma py_int_examples:
  "py_int '' 8 '' = Inr 8"
  "py_int ''+8'' = Inr 8"
  "py_int ''-1'' = Inr (- 1)"
  "py_int ''1_0'' = Inr 10"
  "py_int ''1__0'' = Inl ValueError"
  "py_int ''_1'' = Inl ValueError"
  "py_int ''+ 8'' = Inl ValueError"
  "py_int ''four'' = Inl ValueError"
  "py_int [] = Inl ValueError"
  "py_int [CHR 0x1C, CHR ''4''] = Inl ValueError"
  "py_int [CHR ''4'', CHR 0x1F] = Inl ValueError"
  "py_int [CHR 0x7F, CHR ''4''] = Inl ValueError"
  "py_int [CHR 0x20, CHR ''4'', CHR 0x0B] = Inr 4"
  "py_int [CHR 0xA0, CHR ''4'', CHR 0x85] = Inr 4"
  by code_simp+

text \<open>
  Claim C3 (concurrency ceiling). In every run of a batch under the limit \<open>L\<close>, whatever
  the tasks do and in whatever order they are over, each snapshot has at most \<open>L\<close> tasks
  in flight, and the semaphore's value plus the number of tasks in flight is \<open>L\<close>. A
  snapshot is taken each time a task is over, after every admissible waiting task has
  been admitted: these are the moments at which the number in flight is largest. At the
  end of the run the semaphore's value is \<open>L\<close> again: every task gave its slot back,
  whether it returned or raised. With a positive limit the run exists. The limit is
  \<open>4\<close> when the environment does not set \<^verbatim>\<open>MAX_CONCURRENCY\<close>, and otherwise the
  number an operator writes there, when its numeral has at most 4300 digits; a longer
  numeral is a \<^verbatim>\<open>ValueError\<close> at start-up.
\<close>

theorem concurrency_ceiling:
  "(gather_run order coros limit = Some (trace, sem_end) \<longrightarrow>
      (\<forall>s \<in> set trace. length (in_flight s) \<le> nat limit \<and>
                        sem_value s + length (in_flight s) = nat limit) \<and>
      sem_end = nat limit) \<and>
   (0 < limit \<longrightarrow> gather_run order coros limit \<noteq> None) \<and>
   (environ ''MAX_CONCURRENCY'' = None \<longrightarrow> MAX_CONCURRENCY environ = Inr 4) \<and>
   (environ ''MAX_CONCURRENCY'' = Some (decimal n) \<and> length (decimal n) \<le> 4300 \<longrightarrow>
      MAX_CONCURRENCY environ = Inr (int n)) \<and>
   (environ ''MAX_CONCURRENCY'' = Some (decimal n) \<and> 4300 < length (decimal n) \<longrightarrow>
      MAX_CONCURRENCY environ = Inl ValueError)"
proof (intro conjI impI)
  assume run: "gather_run order coros limit = Some (trace, sem_end)"
  from run_tasks_sem [OF run [unfolded gather_run_def]]
  have inv: "\<forall>s \<in> set trace. sem_value s + length (in_flight s) = nat limit"
    and fin: "sem_end = nat limit" by simp_all
  from inv show "\<forall>s \<in> set trace. length (in_flight s) \<le> nat limit \<and>
                        sem_value s + length (in_flight s) = nat limit"
    by (metis le_add2)
  from fin show "sem_end = nat limit" .
next
  assume "0 < limit"
  from gather_run_returns [OF this, of order coros]
  show "gather_run order coros limit \<noteq> None" by auto
next
  assume "environ ''MAX_CONCURRENCY'' = None"
  moreover have "py_int ''4'' = Inr 4" by code_simp
  ultimately show "MAX_CONCURRENCY environ = Inr 4"
    by (simp add: MAX_CONCURRENCY_def getenv_def)
next
  assume "environ ''MAX_CONCURRENCY'' = Some (decimal n) \<and> length (decimal n) \<le> 4300"
  then show "MAX_CONCURRENCY environ = Inr (int n)"
    by (simp add: MAX_CONCURRENCY_def getenv_def py_int_decimal int_max_str_digits_def)
next
  assume "environ ''MAX_CONCURRENCY'' = Some (decimal n) \<and> 4300 < length (decimal n)"
  then show "MAX_CONCURRENCY environ = Inl ValueError"
    by (simp add: MAX_CONCURRENCY_def getenv_def py_int_too_long int_max_str_digits_def)
qed

theorem concurrency_ceiling_witness:
  "(0 :: int) < 2 \<and>
   gather_run [1, 0] [Inr (1 :: nat), Inl ValueError, Inr 3] 2 =
     Some ([\<lparr>sem_value = 0, in_flight = [(0, Inr 1), (1, Inl ValueError)],
               completes = (1, Inl ValueError)\<rparr>,
            \<lparr>sem_value = 0, in_flight = [(0, Inr 1), (2, Inr 3)], completes = (0, Inr 1)\<rparr>,
            \<lparr>sem_value = 1, in_flight = [(2, Inr 3)], completes = (2, Inr 3)\<rparr>], 2) \<and>
   (2 :: nat) = nat 2 \<and>
   MAX_CONCURRENCY Map.empty = Inr 4 \<and>
   length (decimal 16) \<le> 4300 \<and>
   MAX_CONCURRENCY [''MAX_CONCURRENCY'' \<mapsto> ''16''] = Inr 16"
proof -
  have pos: "(0 :: int) < 2" by simp
  have run: "gather_run [1, 0] [Inr (1 :: nat), Inl ValueError, Inr 3] 2 =
     Some ([\<lparr>sem_value = 0, in_flight = [(0, Inr 1), (1, Inl ValueError)],
               completes = (1, Inl ValueError)\<rparr>,
            \<lparr>sem_value = 0, in_flight = [(0, Inr 1), (2, Inr 3)], completes = (0, Inr 1)\<rparr>,
            \<lparr>sem_value = 1, in_flight = [(2, Inr 3)], completes = (2, Inr 3)\<rparr>], 2)"
    by code_simp
  have unset: "(Map.empty :: string \<rightharpoonup> string) ''MAX_CONCURRENCY'' = None" by simp
  have dec: "decimal 16 = ''16''" by code_simp
  have short: "length (decimal 16) \<le> 4300" by (simp add: dec)
  have set16: "[''MAX_CONCURRENCY'' \<mapsto> ''16''] ''MAX_CONCURRENCY'' = Some (decimal 16)"
    by (simp add: dec)
  from concurrency_ceiling [of "[1, 0]" "[Inr (1 :: nat), Inl ValueError, Inr 3]" 2 _ 2
         Map.empty 0] run unset
  have a: "(2 :: nat) = nat 2" and b: "MAX_CONCURRENCY Map.empty = Inr 4" by simp_all
  from concurrency_ceiling [of "[]" "[] :: (error + nat) list" 1 "[]" 1
         "[''MAX_CONCURRENCY'' \<mapsto> ''16'']" 16] set16 short
  have c: "MAX_CONCURRENCY [''MAX_CONCURRENCY'' \<mapsto> ''16''] = Inr 16" by simp
  from pos run a b short c show ?thesis by blast
qed

section \<open>Properties of the stage runners\<close>

lemma for_each_Inr:
  "for_each body xs = Inr ys \<Longrightarrow>
   length ys = length xs \<and> (\<forall>i < length xs. body (xs ! i) = Inr (ys ! i))"
proof (induction xs arbitrary: ys)
  case Nil
  then show ?case by simp
next
  case (Cons x xs)
  from Cons.prems obtain y ys' where
    y: "body x = Inr y" and ys': "for_each body xs = Inr ys'" and ys: "ys = y # ys'"
    by (auto split: sum.splits)
  from Cons.IH [OF ys'] y ys show ?case
    by (auto simp: nth_Cons split: nat.splits)
qed

lemma collect_not_Hangs:
  "(\<forall>i \<in> set children. result i \<noteq> None) \<Longrightarrow> collect result children \<noteq> Hangs"
  by (induction children) (auto split: option.splits sum.splits outcome.splits)

lemma bounded_gather_not_Hangs:
  assumes "0 < limit"
  shows "bounded_gather order coros limit \<noteq> Hangs"
proof -
  from gather_run_returns [OF assms] obtain trace sem_end where
    run: "gather_run order coros limit = Some (trace, sem_end)" by blast
  let ?fin = "map completes trace"
  note fin = gather_run_finished [OF run]
  have "\<forall>i \<in> set [0..<length coros]. map_of ?fin i \<noteq> None"
    using finished_lookup [OF fin] by simp
  then have "collect (map_of ?fin) [0..<length coros] \<noteq> Hangs"
    by (rule collect_not_Hangs)
  with run assms show ?thesis
    by (simp add: bounded_gather_def gather_result_def split: option.splits)
qed

lemma run_batch_Returns:
  assumes "run_batch prim llm order limit S coros = Returns rs"
  shows "length rs = length coros \<and>
         (\<forall>i < length coros. unit_result prim llm S (coros ! i) = Inr (rs ! i))"
proof -
  from assms obtain responses where
    g: "bounded_gather order (map llm coros) limit = Returns responses" and
    v: "validate_responses prim S responses = Inr rs"
    by (auto simp: run_batch_def split: outcome.splits sum.splits)
  from bounded_gather_ReturnsD [OF g]
  have len: "length responses = length coros"
    and each: "\<forall>i < length coros. llm (coros ! i) = Inr (responses ! i)" by simp_all
  from for_each_Inr [OF v [unfolded validate_responses_def]]
  have len': "length rs = length responses"
    and each': "\<forall>i < length responses. decode prim S (responses ! i) = Inr (rs ! i)" by simp_all
  from len len' each each' show ?thesis
    by (simp add: unit_result_def)
qed

lemma run_batch_units:
  assumes "run_batch prim llm order limit S coros = Returns rs" and "coro \<in> set coros"
  shows "\<not> isl (unit_result prim llm S coro)"
proof -
  from assms(2) obtain i where i: "i < length coros" "coros ! i = coro"
    by (auto simp: in_set_conv_nth)
  with run_batch_Returns [OF assms(1)] show ?thesis by auto
qed

lemma run_batch_not_Hangs:
  "0 < limit \<Longrightarrow> run_batch prim llm order limit S coros \<noteq> Hangs"
  using bounded_gather_not_Hangs [of limit order "map llm coros"]
  by (auto simp: run_batch_def split: outcome.splits sum.splits)

lemma run_pages_Returns:
  "run_pages prim llm orders limit S build i pages = (Returns outs, batches) \<Longrightarrow>
   \<forall>b \<in> set batches. \<forall>coro \<in> set b. \<not> isl (unit_result prim llm S coro)"
proof (induction pages arbitrary: i outs batches)
  case Nil
  then show ?case by simp
next
  case (Cons page pages)
  from Cons.prems obtain pn coros rs outs' batches' where
    b: "build page = Inr (pn, coros)" and
    r: "run_batch prim llm (orders i) limit S coros = Returns rs" and
    rest: "run_pages prim llm orders limit S build (Suc i) pages = (Returns outs', batches')" and
    bs: "batches = coros # batches'"
    by (auto split: sum.splits outcome.splits prod.splits)
  from Cons.IH [OF rest] run_batch_units [OF r] bs show ?case by auto
qed

lemma run_pages_not_Hangs:
  "0 < limit \<Longrightarrow> fst (run_pages prim llm orders limit S build i pages) \<noteq> Hangs"
proof (induction pages arbitrary: i)
  case Nil
  then show ?case by simp
next
  case (Cons page pages)
  from Cons.IH [OF Cons.prems, of "Suc i"] run_batch_not_Hangs [OF Cons.prems, of prim llm _ S]
  show ?case
    by (auto split: sum.splits outcome.splits prod.splits)
qed

lemma finish_all_or_nothing:
  assumes "\<And>outs. out = Returns outs \<Longrightarrow>
             \<forall>b \<in> set batches. \<forall>coro \<in> set b. \<not> isl (unit coro)"
    and "0 < limit \<Longrightarrow> out \<noteq> Hangs"
  shows "all_or_nothing store limit unit (finish path restaurant_name store (out, batches))"
proof (cases out)
  case (Returns outs)
  with assms(1) [OF Returns] show ?thesis
    by (auto simp: all_or_nothing_def finish_def Let_def)
next
  case (Raises e)
  then show ?thesis by (simp add: all_or_nothing_def finish_def)
next
  case Hangs
  with assms(2) show ?thesis by (auto simp: all_or_nothing_def finish_def)
qed

lemma run_pages_all_or_nothing:
  "all_or_nothing store limit (unit_result prim llm S)
     (finish path restaurant_name store (run_pages prim llm orders limit S build i pages))"
proof -
  obtain out batches where r: "run_pages prim llm orders limit S build i pages = (out, batches)"
    by (cases "run_pages prim llm orders limit S build i pages")
  show ?thesis
    unfolding r
  proof (rule finish_all_or_nothing)
    fix outs assume "out = Returns outs"
    with r run_pages_Returns [of prim llm orders limit S build i pages outs batches]
    show "\<forall>b \<in> set batches. \<forall>coro \<in> set b. \<not> isl (unit_result prim llm S coro)" by simp
  next
    assume "0 < limit"
    from run_pages_not_Hangs [OF this, of prim llm orders S build i pages] r
    show "out \<noteq> Hangs" by simp
  qed
qed

lemma failed_all_or_nothing:
  "all_or_nothing store limit unit (finish path restaurant_name store (Raises e, batches))"
  by (simp add: all_or_nothing_def finish_def)

lemma run_phase2_all_or_nothing:
  "all_or_nothing store limit (unit_result prim llm (CategorywithItems Utils_model))
     (run_phase2 prim llm orders limit images store restaurant_name categories_payload)"
  by (auto simp: run_phase2_def run_pages_all_or_nothing failed_all_or_nothing
           split: sum.splits)

lemma run_phase3_all_or_nothing:
  "all_or_nothing store limit (unit_result prim llm (CategoryBase Utils_model))
     (run_phase3 prim llm orders limit images store restaurant_name payload)"
  by (auto simp: run_phase3_def run_pages_all_or_nothing failed_all_or_nothing
           split: sum.splits)

lemma run_phase4_all_or_nothing:
  "all_or_nothing store limit (unit_result prim llm (CategoryItemAddons Utils_model))
     (run_phase4 prim llm orders limit images store restaurant_name payload base_payload)"
  by (auto simp: run_phase4_def run_pages_all_or_nothing failed_all_or_nothing
           split: sum.splits)

lemma run_phase1_all_or_nothing:
  "all_or_nothing store limit (unit_result prim llm (Categories Utils_model))
     (run_phase1 prim llm orders limit images store restaurant_name)"
proof -
  let ?S = "Categories Utils_model"
  let ?coros = "phase1_coros restaurant_name images"
  let ?g = "bounded_gather (orders 0) (map llm ?coros) limit"
  show ?thesis
  proof (cases ?g)
    case (Returns responses)
    show ?thesis
    proof (cases "validate_responses prim ?S responses")
      case (Inl e)
      with Returns show ?thesis
        by (simp add: run_phase1_def Let_def failed_all_or_nothing)
    next
      case (Inr validated)
      from Returns Inr have rb: "run_batch prim llm (orders 0) limit ?S ?coros = Returns validated"
        by (simp add: run_batch_def)
      have "\<forall>b \<in> set [?coros]. \<forall>coro \<in> set b. \<not> isl (unit_result prim llm ?S coro)"
        using run_batch_units [OF rb] by simp
      with Returns Inr show ?thesis
        by (simp add: run_phase1_def Let_def all_or_nothing_def finish_def)
    qed
  next
    case (Raises e)
    then show ?thesis by (simp add: run_phase1_def Let_def failed_all_or_nothing)
  next
    case Hangs
    with bounded_gather_not_Hangs [of limit "orders 0" "map llm ?coros"]
    show ?thesis by (auto simp: run_phase1_def Let_def all_or_nothing_def finish_def)
  qed
qed

text \<open>
  Claim C1 (fail-fast, all-or-nothing batches). A batch given to \<open>bounded_gather\<close> in which
  a task raises never returns a list, and with a positive limit it raises one of the
  tasks' exceptions. A runner's batch in which a unit fails (the call raises, the reply
  is not JSON, or the object does not validate) never returns a list of results, and
  with a positive limit it raises. For each of the four stage runners: if a unit of a
  batch that the run handed to the executor fails, the run ends in an exception and the
  files are as they were before the run, so nothing of the failed run is returned or
  persisted.
\<close>

theorem fail_fast_all_or_nothing:
  "(Inl e \<in> set coros \<longrightarrow>
      (\<forall>rs. bounded_gather order coros limit \<noteq> Returns rs) \<and>
      (0 < limit \<longrightarrow> (\<exists>e'. bounded_gather order coros limit = Raises e' \<and> Inl e' \<in> set coros))) \<and>
   (coro \<in> set batch \<and> isl (unit_result prim llm S coro) \<longrightarrow>
      (\<forall>rs. run_batch prim llm order limit S batch \<noteq> Returns rs) \<and>
      (0 < limit \<longrightarrow> (\<exists>e'. run_batch prim llm order limit S batch = Raises e'))) \<and>
   all_or_nothing store limit (unit_result prim llm (Categories Utils_model))
     (run_phase1 prim llm orders limit images store restaurant_name) \<and>
   all_or_nothing store limit (unit_result prim llm (CategorywithItems Utils_model))
     (run_phase2 prim llm orders limit images store restaurant_name categories_payload) \<and>
   all_or_nothing store limit (unit_result prim llm (CategoryBase Utils_model))
     (run_phase3 prim llm orders limit images store restaurant_name items_payload) \<and>
   all_or_nothing store limit (unit_result prim llm (CategoryItemAddons Utils_model))
     (run_phase4 prim llm orders limit images store restaurant_name items_payload bases_payload)"
proof (intro conjI impI allI)
  fix rs
  assume e: "Inl e \<in> set coros"
  show "bounded_gather order coros limit \<noteq> Returns rs"
  proof
    assume "bounded_gather order coros limit = Returns rs"
    from bounded_gather_ReturnsD [OF this]
    have "\<forall>i < length coros. coros ! i = Inr (rs ! i)" by simp
    moreover from e obtain i where "i < length coros" "coros ! i = Inl e"
      by (auto simp: in_set_conv_nth)
    ultimately show False by auto
  qed
next
  assume "Inl e \<in> set coros" and "0 < limit"
  then show "\<exists>e'. bounded_gather order coros limit = Raises e' \<and> Inl e' \<in> set coros"
    by (rule bounded_gather_raises [rotated])
next
  fix rs
  assume a: "coro \<in> set batch \<and> isl (unit_result prim llm S coro)"
  show "run_batch prim llm order limit S batch \<noteq> Returns rs"
  proof
    assume "run_batch prim llm order limit S batch = Returns rs"
    from run_batch_units [OF this, of coro] a show False by simp
  qed
next
  assume a: "coro \<in> set batch \<and> isl (unit_result prim llm S coro)" and pos: "0 < limit"
  show "\<exists>e'. run_batch prim llm order limit S batch = Raises e'"
  proof (cases "run_batch prim llm order limit S batch")
    case (Returns rs)
    from run_batch_units [OF this, of coro] a show ?thesis by simp
  next
    case (Raises e')
    then show ?thesis by blast
  next
    case Hangs
    with run_batch_not_Hangs [OF pos, of prim llm order S batch] show ?thesis by simp
  qed
qed (rule run_phase1_all_or_nothing run_phase2_all_or_nothing run_phase3_all_or_nothing
       run_phase4_all_or_nothing)+

theorem fail_fast_all_or_nothing_witness:
  "bounded_gather [1] [Inr (1 :: nat), Inl ValueError, Inr 3] 2 = Raises ValueError \<and>
   fst (run_phase2 exact_prim broken_reply (\<lambda>i. []) 4 [''img1'', ''img2''] Map.empty ''Amici''
          two_page_categories) = Raises JSONDecodeError \<and>
   fst (snd (run_phase2 exact_prim broken_reply (\<lambda>i. []) 4 [''img1'', ''img2''] Map.empty
          ''Amici'' two_page_categories)) = Map.empty"
proof -
  let ?R = "run_phase2 exact_prim broken_reply (\<lambda>i. []) 4 [''img1'', ''img2''] Map.empty ''Amici''
              two_page_categories"
  let ?coro = "call_openrouter
                 (phase2_prompt ''Amici'' (JInt 1)
                    (JObj [(''name_raw'', JStr ''Appetizers''), (''subcategories'', JArr [])]))
                 ''img1'' (CategorywithItems Utils_model)"
  have g: "bounded_gather [1] [Inr (1 :: nat), Inl ValueError, Inr 3] 2 = Raises ValueError"
    by code_simp
  have out: "fst ?R = Raises JSONDecodeError" by code_simp
  have batches: "snd (snd ?R) = [[?coro]]" by code_simp
  have failed: "isl (unit_result exact_prim broken_reply (CategorywithItems Utils_model) ?coro)"
    by (simp add: unit_result_def broken_reply_def decode_def)
  have pos: "(0 :: int) < 4" by simp
  from fail_fast_all_or_nothing
         [of ValueError "[Inr (1 :: nat), Inl ValueError, Inr 3]" "[1]" 4 ?coro "[?coro]"
             exact_prim broken_reply "CategorywithItems Utils_model" Map.empty "\<lambda>i. []"
             "[''img1'', ''img2'']" "''Amici''" two_page_categories JNull JNull]
  have "all_or_nothing Map.empty 4
          (unit_result exact_prim broken_reply (CategorywithItems Utils_model)) ?R" by blast
  with batches failed have "fst (snd ?R) = Map.empty"
    by (cases ?R) (auto simp: all_or_nothing_def)
  with g out show ?thesis by blast
qed


lemma for_each_InrI:
  "length ys = length xs \<Longrightarrow> (\<forall>i < length xs. body (xs ! i) = Inr (ys ! i)) \<Longrightarrow>
   for_each body xs = Inr ys"
proof (induction xs arbitrary: ys)
  case Nil
  then show ?case by simp
next
  case (Cons x xs)
  from Cons.prems(1) obtain y ys' where ys: "ys = y # ys'" by (cases ys) auto
  from Cons.prems(2) ys have y: "body x = Inr y" by auto
  from Cons.prems ys have "for_each body xs = Inr ys'"
    by (intro Cons.IH) auto
  with y ys show ?case by simp
qed

lemma decode_Inr:
  "decode prim S raw = Inr v \<longleftrightarrow> (\<exists>obj. raw = JsonText obj \<and> model_validate prim S obj = Inr v)"
  by (cases raw) (simp_all add: decode_def)

lemma run_batch_resolved:
  "run_batch prim llm order limit S coros = Returns results \<longleftrightarrow>
   resolved prim llm order limit S coros results"
proof
  assume r: "run_batch prim llm order limit S coros = Returns results"
  then obtain responses where
    g: "bounded_gather order (map llm coros) limit = Returns responses" and
    v: "validate_responses prim S responses = Inr results"
    by (auto simp: run_batch_def split: outcome.splits sum.splits)
  from bounded_gather_ReturnsD [OF g]
  have len: "length responses = length coros"
    and each: "\<forall>i < length coros. llm (coros ! i) = Inr (responses ! i)" by simp_all
  from for_each_Inr [OF v [unfolded validate_responses_def]]
  have len': "length results = length responses"
    and each': "\<forall>i < length responses. decode prim S (responses ! i) = Inr (results ! i)"
    by simp_all
  have "\<forall>i < length coros. \<exists>obj. llm (coros ! i) = Inr (JsonText obj) \<and>
                                model_validate prim S obj = Inr (results ! i)"
  proof (intro allI impI)
    fix i assume i: "i < length coros"
    with each' len have "decode prim S (responses ! i) = Inr (results ! i)" by simp
    then obtain obj where "responses ! i = JsonText obj"
      "model_validate prim S obj = Inr (results ! i)" by (auto simp: decode_Inr)
    with each i show "\<exists>obj. llm (coros ! i) = Inr (JsonText obj) \<and>
                                model_validate prim S obj = Inr (results ! i)" by auto
  qed
  with g len len' show "resolved prim llm order limit S coros results"
    by (auto simp: resolved_def)
next
  assume "resolved prim llm order limit S coros results"
  then obtain responses where
    g: "bounded_gather order (map llm coros) limit = Returns responses" and
    len: "length results = length coros" and
    each: "\<forall>i < length coros. \<exists>obj. llm (coros ! i) = Inr (JsonText obj) \<and>
                                model_validate prim S obj = Inr (results ! i)"
    by (auto simp: resolved_def)
  from bounded_gather_ReturnsD [OF g]
  have rlen: "length responses = length coros"
    and reach: "\<forall>i < length coros. llm (coros ! i) = Inr (responses ! i)" by simp_all
  have "\<forall>i < length responses. decode prim S (responses ! i) = Inr (results ! i)"
  proof (intro allI impI)
    fix i assume "i < length responses"
    with rlen have i: "i < length coros" by simp
    with each obtain obj where o: "llm (coros ! i) = Inr (JsonText obj)"
      "model_validate prim S obj = Inr (results ! i)" by blast
    with reach i have "responses ! i = JsonText obj" by auto
    with o show "decode prim S (responses ! i) = Inr (results ! i)" by (simp add: decode_Inr)
  qed
  with len rlen have "validate_responses prim S responses = Inr results"
    unfolding validate_responses_def by (intro for_each_InrI) simp_all
  with g show "run_batch prim llm order limit S coros = Returns results"
    by (simp add: run_batch_def)
qed

lemma run_pages_schedule:
  "run_pages prim llm orders limit S build i pages = (out, batches) \<Longrightarrow>
   (\<forall>k < length pages.
      (k < length batches) =
      ((\<forall>j < k. \<exists>pn coros rs. build (pages ! j) = Inr (pn, coros) \<and>
                    run_batch prim llm (orders (i + j)) limit S coros = Returns rs) \<and>
       (\<exists>pn coros. build (pages ! k) = Inr (pn, coros)))) \<and>
   (\<forall>outs. out = Returns outs \<longrightarrow>
      length outs = length pages \<and>
      (\<forall>k < length pages. \<exists>pn rs.
         build (pages ! k) = Inr (pn, batches ! k) \<and>
         run_batch prim llm (orders (i + k)) limit S (batches ! k) = Returns rs \<and>
         outs ! k = JObj [(''page_number'', pn), (''categories'', JArr rs)]))"
proof (induction pages arbitrary: i out batches)
  case Nil
  then show ?case by auto
next
  case (Cons page pages)
  let ?built = "\<lambda>ps k. \<exists>pn coros. build (ps ! k) = Inr (pn, coros)"
  let ?done = "\<lambda>ps i j. \<exists>pn coros rs. build (ps ! j) = Inr (pn, coros) \<and>
                    run_batch prim llm (orders (i + j)) limit S coros = Returns rs"
  show ?case
  proof (cases "build page")
    case (Inl e)
    with Cons.prems have bs: "batches = []" and no: "\<forall>outs. out \<noteq> Returns outs" by auto
    have nb: "\<not> ?built (page # pages) 0" using Inl by simp
    have "(k < length batches) =
          ((\<forall>j < k. ?done (page # pages) i j) \<and> ?built (page # pages) k)"
      if "k < length (page # pages)" for k
    proof (cases k)
      case 0
      with bs nb show ?thesis by simp
    next
      case (Suc k')
      have "\<not> ?done (page # pages) i 0" using Inl by simp
      with Suc have "\<not> (\<forall>j < k. ?done (page # pages) i j)" by auto
      with bs show ?thesis by simp
    qed
    with no show ?thesis by blast
  next
    case (Inr b)
    obtain pn coros where b: "b = (pn, coros)" by (cases b)
    have built0: "?built (page # pages) 0" using Inr b by simp
    show ?thesis
    proof (cases "\<exists>rs. run_batch prim llm (orders i) limit S coros = Returns rs")
      case False
      with Cons.prems Inr b have bs: "batches = [coros]" and no: "\<forall>outs. out \<noteq> Returns outs"
        by (auto split: outcome.splits)
      have nd: "\<not> ?done (page # pages) i 0" using False Inr b by simp
      have "(k < length batches) =
            ((\<forall>j < k. ?done (page # pages) i j) \<and> ?built (page # pages) k)"
        if "k < length (page # pages)" for k
      proof (cases k)
        case 0
        with bs built0 show ?thesis by simp
      next
        case (Suc k')
        then have "\<not> (\<forall>j < k. ?done (page # pages) i j)" using nd by auto
        with Suc bs show ?thesis by simp
      qed
      with no show ?thesis by blast
    next
      case True
      then obtain rs where rs: "run_batch prim llm (orders i) limit S coros = Returns rs" by blast
      obtain out' batches' where
        rest: "run_pages prim llm orders limit S build (Suc i) pages = (out', batches')"
        by (cases "run_pages prim llm orders limit S build (Suc i) pages")
      from Cons.prems Inr b rs rest have bs: "batches = coros # batches'"
        and out: "\<forall>outs. out = Returns outs \<longrightarrow>
                    (\<exists>outs'. out' = Returns outs' \<and>
                       outs = JObj [(''page_number'', pn), (''categories'', JArr rs)] # outs')"
        by (auto split: outcome.splits)
      note IH = Cons.IH [OF rest]
      have d0: "?done (page # pages) i 0" using Inr b rs by simp
      have 1: "(k < length batches) =
            ((\<forall>j < k. ?done (page # pages) i j) \<and> ?built (page # pages) k)"
        if k: "k < length (page # pages)" for k
      proof (cases k)
        case 0
        with bs built0 show ?thesis by simp
      next
        case (Suc k')
        with k have k': "k' < length pages" by simp
        have "(\<forall>j < k. ?done (page # pages) i j) = (\<forall>j < k'. ?done pages (Suc i) j)"
        proof
          assume a: "\<forall>j < k. ?done (page # pages) i j"
          show "\<forall>j < k'. ?done pages (Suc i) j"
          proof (intro allI impI)
            fix j assume "j < k'"
            with Suc have "Suc j < k" by simp
            with a have "?done (page # pages) i (Suc j)" by blast
            then show "?done pages (Suc i) j" by simp
          qed
        next
          assume a: "\<forall>j < k'. ?done pages (Suc i) j"
          show "\<forall>j < k. ?done (page # pages) i j"
          proof (intro allI impI)
            fix j assume j: "j < k"
            show "?done (page # pages) i j"
            proof (cases j)
              case 0
              with d0 show ?thesis by simp
            next
              case (Suc j')
              with j \<open>k = Suc k'\<close> have "j' < k'" by simp
              with a have "?done pages (Suc i) j'" by blast
              with Suc show ?thesis by simp
            qed
          qed
        qed
        moreover have "?built (page # pages) k = ?built pages k'" using Suc by simp
        moreover from IH k' have "(k' < length batches') =
            ((\<forall>j < k'. ?done pages (Suc i) j) \<and> ?built pages k')" by blast
        ultimately show ?thesis using Suc bs by simp
      qed
      have 2: "length outs = length (page # pages) \<and>
      (\<forall>k < length (page # pages). \<exists>pn rs.
         build ((page # pages) ! k) = Inr (pn, batches ! k) \<and>
         run_batch prim llm (orders (i + k)) limit S (batches ! k) = Returns rs \<and>
         outs ! k = JObj [(''page_number'', pn), (''categories'', JArr rs)])"
        if o: "out = Returns outs" for outs
      proof -
        from out o obtain outs' where o': "out' = Returns outs'"
          and outs: "outs = JObj [(''page_number'', pn), (''categories'', JArr rs)] # outs'"
          by blast
        from IH o' have len: "length outs' = length pages"
          and each: "\<forall>k < length pages. \<exists>pn rs.
             build (pages ! k) = Inr (pn, batches' ! k) \<and>
             run_batch prim llm (orders (Suc i + k)) limit S (batches' ! k) = Returns rs \<and>
             outs' ! k = JObj [(''page_number'', pn), (''categories'', JArr rs)]"
          by simp_all
        have "\<exists>pn rs.
         build ((page # pages) ! k) = Inr (pn, batches ! k) \<and>
         run_batch prim llm (orders (i + k)) limit S (batches ! k) = Returns rs \<and>
         outs ! k = JObj [(''page_number'', pn), (''categories'', JArr rs)]"
          if "k < length (page # pages)" for k
        proof (cases k)
          case 0
          with Inr b rs bs outs show ?thesis by simp
        next
          case (Suc k')
          with that each have "\<exists>pn rs.
             build (pages ! k') = Inr (pn, batches' ! k') \<and>
             run_batch prim llm (orders (Suc i + k')) limit S (batches' ! k') = Returns rs \<and>
             outs' ! k' = JObj [(''page_number'', pn), (''categories'', JArr rs)]" by simp
          with Suc bs outs show ?thesis by simp
        qed
        with len outs show ?thesis by simp
      qed
      from 1 2 show ?thesis by blast
    qed
  qed
qed

lemma validate_list_length:
  "validate_list prim t xs = Some ys \<Longrightarrow> length ys = length xs"
  by (induction xs arbitrary: ys) (auto split: option.splits)

lemma Categories_validated:
  assumes "model_validate prim (Categories m) data = Inr v"
  shows "\<exists>cats. v = JObj [(''categories'', JArr cats)] \<and>
           (\<forall>xs. getitem data ''categories'' = Inr (JArr xs) \<longrightarrow> length cats = length xs)"
proof -
  from assms obtain kvs where data: "data = JObj kvs"
    by (cases data) (auto simp: model_validate_def Categories_def)
  show ?thesis
  proof (cases "map_of kvs ''categories''")
    case None
    with assms data show ?thesis
      by (auto simp: model_validate_def Categories_def split: if_splits)
  next
    case (Some c)
    with assms data obtain xs ys where c: "c = JArr xs"
      and ys: "validate_list prim (TModel (CategoryRef m)) xs = Some ys"
      and v: "v = JObj [(''categories'', JArr ys)]"
      by (cases c) (auto simp: model_validate_def Categories_def split: if_splits option.splits)
    from validate_list_length [OF ys] Some c v data show ?thesis by auto
  qed
qed

lemma run_pages_batches:
  "run_pages prim llm orders limit S build i pages = (out, batches) \<Longrightarrow>
   length batches \<le> length pages \<and>
   (\<forall>k < length batches. \<exists>pn. build (pages ! k) = Inr (pn, batches ! k)) \<and>
   (\<forall>k. Suc k < length batches \<longrightarrow>
        (\<exists>rs. run_batch prim llm (orders (i + k)) limit S (batches ! k) = Returns rs)) \<and>
   ((\<exists>outs. out = Returns outs) \<longrightarrow> length batches = length pages)"
proof (induction pages arbitrary: i out batches)
  case Nil
  then show ?case by simp
next
  case (Cons page pages)
  show ?case
  proof (cases "build page")
    case (Inl e)
    with Cons.prems show ?thesis by auto
  next
    case (Inr b)
    obtain pn coros where b: "b = (pn, coros)" by (cases b)
    show ?thesis
    proof (cases "run_batch prim llm (orders i) limit S coros")
      case (Raises e)
      with Cons.prems Inr b show ?thesis by auto
    next
      case Hangs
      with Cons.prems Inr b show ?thesis by auto
    next
      case (Returns rs)
      obtain out' batches' where
        rest: "run_pages prim llm orders limit S build (Suc i) pages = (out', batches')"
        by (cases "run_pages prim llm orders limit S build (Suc i) pages")
      from Cons.prems Inr b Returns rest have bs: "batches = coros # batches'"
        and out: "(\<exists>outs. out = Returns outs) \<longrightarrow> (\<exists>outs. out' = Returns outs)"
        by (auto split: outcome.splits)
      note IH = Cons.IH [OF rest]
      have 1: "length batches \<le> length (page # pages)" using IH bs by simp
      have 2: "\<forall>k < length batches. \<exists>pn. build ((page # pages) ! k) = Inr (pn, batches ! k)"
      proof (intro allI impI)
        fix k assume "k < length batches"
        then show "\<exists>pn. build ((page # pages) ! k) = Inr (pn, batches ! k)"
          using IH bs Inr b by (cases k) auto
      qed
      have 3: "\<forall>k. Suc k < length batches \<longrightarrow>
        (\<exists>rs. run_batch prim llm (orders (i + k)) limit S (batches ! k) = Returns rs)"
      proof (intro allI impI)
        fix k assume k: "Suc k < length batches"
        show "\<exists>rs. run_batch prim llm (orders (i + k)) limit S (batches ! k) = Returns rs"
        proof (cases k)
          case 0
          with Returns bs show ?thesis by simp
        next
          case (Suc j)
          with k bs have "Suc j < length batches'" by simp
          with IH have "\<exists>rs. run_batch prim llm (orders (Suc i + j)) limit S (batches' ! j) = Returns rs"
            by blast
          with Suc bs show ?thesis by simp
        qed
      qed
      have 4: "(\<exists>outs. out = Returns outs) \<longrightarrow> length batches = length (page # pages)"
        using IH out bs by auto
      from 1 2 3 4 show ?thesis by blast
    qed
  qed
qed


lemma finish_parts:
  assumes "finish path restaurant_name store (out, batches) = (out', store', batches')"
  shows "batches' = batches" and "(\<exists>output. out' = Returns output) \<longleftrightarrow> (\<exists>outs. out = Returns outs)"
  using assms by (cases out; auto simp: finish_def Let_def)+

lemma phase2_coros_Inr:
  assumes "phase2_coros prim restaurant_name images page = Inr (page_number, coros)"
  shows "\<exists>img data cats.
       getitem page ''page_number'' = Inr page_number \<and> page_image images page_number = Inr img \<and>
       getitem page ''data'' = Inr data \<and>
       model_validate prim (Categories Utils_model) data = Inr (JObj [(''categories'', JArr cats)]) \<and>
       (\<forall>xs. getitem data ''categories'' = Inr (JArr xs) \<longrightarrow> length cats = length xs) \<and>
       coros = map (\<lambda>cat. call_openrouter (phase2_prompt restaurant_name page_number cat) img
                             (CategorywithItems Utils_model)) cats"
proof -
  from assms obtain img data v where
    pn: "getitem page ''page_number'' = Inr page_number" and
    img: "page_image images page_number = Inr img" and
    data: "getitem page ''data'' = Inr data" and
    v: "model_validate prim (Categories Utils_model) data = Inr v"
    by (auto simp: phase2_coros_def split: sum.splits)
  from Categories_validated [OF v] obtain cats where
    cats: "v = JObj [(''categories'', JArr cats)]" and
    len: "\<forall>xs. getitem data ''categories'' = Inr (JArr xs) \<longrightarrow> length cats = length xs"
    by blast
  from assms pn img data v cats
  have "coros = map (\<lambda>cat. call_openrouter (phase2_prompt restaurant_name page_number cat) img
                             (CategorywithItems Utils_model)) cats"
    by (simp add: phase2_coros_def)
  with pn img data v cats len show ?thesis by blast
qed

lemma stage_schedule:
  assumes f: "finish path restaurant_name store
                (run_pages prim llm orders limit S build 0 pages) = (out, store', batches)"
  shows "length batches \<le> length pages"
    and "\<forall>k < length batches. \<exists>pn. build (pages ! k) = Inr (pn, batches ! k)"
    and "\<forall>k < length pages.
           (k < length batches) =
           ((\<forall>j < k. j < length batches \<and>
                       (\<exists>results. resolved prim llm (orders j) limit S (batches ! j) results)) \<and>
            (\<exists>pn coros. build (pages ! k) = Inr (pn, coros)))"
    and "\<forall>output. out = Returns output \<longrightarrow>
           length batches = length pages \<and>
           (\<exists>outs. output = JObj [(''restaurant_name'', JStr restaurant_name),
                                   (''pages'', JArr outs)] \<and>
                   length outs = length pages \<and>
                   (\<forall>k < length pages. \<exists>pn results.
                      build (pages ! k) = Inr (pn, batches ! k) \<and>
                      outs ! k = JObj [(''page_number'', pn), (''categories'', JArr results)] \<and>
                      resolved prim llm (orders k) limit S (batches ! k) results))"
proof -
  obtain out0 batches0 where
    r: "run_pages prim llm orders limit S build 0 pages = (out0, batches0)"
    by (cases "run_pages prim llm orders limit S build 0 pages")
  from f r have f': "finish path restaurant_name store (out0, batches0) = (out, store', batches)"
    by simp
  from finish_parts(1) [OF f'] have bs: "batches0 = batches" by simp
  note rb = run_pages_batches [OF r, unfolded bs]
  note rs = run_pages_schedule [OF r, unfolded bs, simplified]
  from rb show A: "length batches \<le> length pages" by simp
  from rb show B: "\<forall>k < length batches. \<exists>pn. build (pages ! k) = Inr (pn, batches ! k)" by simp
  show "\<forall>k < length pages.
           (k < length batches) =
           ((\<forall>j < k. j < length batches \<and>
                       (\<exists>results. resolved prim llm (orders j) limit S (batches ! j) results)) \<and>
            (\<exists>pn coros. build (pages ! k) = Inr (pn, coros)))"
  proof (intro allI impI)
    fix k assume k: "k < length pages"
    from rs k have iff: "(k < length batches) =
      ((\<forall>j < k. \<exists>pn coros. build (pages ! j) = Inr (pn, coros) \<and>
                   (\<exists>rs. run_batch prim llm (orders j) limit S coros = Returns rs)) \<and>
       (\<exists>pn coros. build (pages ! k) = Inr (pn, coros)))" by blast
    show "(k < length batches) =
           ((\<forall>j < k. j < length batches \<and>
                       (\<exists>results. resolved prim llm (orders j) limit S (batches ! j) results)) \<and>
            (\<exists>pn coros. build (pages ! k) = Inr (pn, coros)))"
    proof
      assume kb: "k < length batches"
      have "j < length batches \<and>
            (\<exists>results. resolved prim llm (orders j) limit S (batches ! j) results)"
        if j: "j < k" for j
      proof -
        from j kb have jb: "j < length batches" by simp
        with B obtain pn where b: "build (pages ! j) = Inr (pn, batches ! j)" by blast
        from iff kb j obtain pn' coros rs where "build (pages ! j) = Inr (pn', coros)"
          "run_batch prim llm (orders j) limit S coros = Returns rs" by blast
        with b have "run_batch prim llm (orders j) limit S (batches ! j) = Returns rs" by simp
        then have "resolved prim llm (orders j) limit S (batches ! j) rs"
          by (simp add: run_batch_resolved)
        with jb show ?thesis by blast
      qed
      moreover from iff kb have "\<exists>pn coros. build (pages ! k) = Inr (pn, coros)" by blast
      ultimately show "(\<forall>j < k. j < length batches \<and>
                       (\<exists>results. resolved prim llm (orders j) limit S (batches ! j) results)) \<and>
            (\<exists>pn coros. build (pages ! k) = Inr (pn, coros))" by blast
    next
      assume a: "(\<forall>j < k. j < length batches \<and>
                       (\<exists>results. resolved prim llm (orders j) limit S (batches ! j) results)) \<and>
            (\<exists>pn coros. build (pages ! k) = Inr (pn, coros))"
      have "\<exists>pn coros. build (pages ! j) = Inr (pn, coros) \<and>
                   (\<exists>rs. run_batch prim llm (orders j) limit S coros = Returns rs)"
        if j: "j < k" for j
      proof -
        from a j have jb: "j < length batches" and
          "\<exists>results. resolved prim llm (orders j) limit S (batches ! j) results" by simp_all
        then obtain results where
          "run_batch prim llm (orders j) limit S (batches ! j) = Returns results"
          by (auto simp: run_batch_resolved)
        moreover from B jb obtain pn where "build (pages ! j) = Inr (pn, batches ! j)" by blast
        ultimately show ?thesis by blast
      qed
      with a iff show "k < length batches" by blast
    qed
  qed
  show "\<forall>output. out = Returns output \<longrightarrow>
           length batches = length pages \<and>
           (\<exists>outs. output = JObj [(''restaurant_name'', JStr restaurant_name),
                                   (''pages'', JArr outs)] \<and>
                   length outs = length pages \<and>
                   (\<forall>k < length pages. \<exists>pn results.
                      build (pages ! k) = Inr (pn, batches ! k) \<and>
                      outs ! k = JObj [(''page_number'', pn), (''categories'', JArr results)] \<and>
                      resolved prim llm (orders k) limit S (batches ! k) results))"
  proof (intro allI impI)
    fix res assume o: "out = Returns res"
    with f' obtain outs where o0: "out0 = Returns outs"
      and res: "res = JObj [(''restaurant_name'', JStr restaurant_name),
                                  (''pages'', JArr outs)]"
      by (cases out0) (auto simp: finish_def Let_def)
    from rb o0 have len: "length batches = length pages" by simp
    from rs o0 have olen: "length outs = length pages"
      and each: "\<forall>k < length pages. \<exists>pn rs.
         build (pages ! k) = Inr (pn, batches ! k) \<and>
         run_batch prim llm (orders k) limit S (batches ! k) = Returns rs \<and>
         outs ! k = JObj [(''page_number'', pn), (''categories'', JArr rs)]" by simp_all
    from each have "\<forall>k < length pages. \<exists>pn results.
                      build (pages ! k) = Inr (pn, batches ! k) \<and>
                      outs ! k = JObj [(''page_number'', pn), (''categories'', JArr results)] \<and>
                      resolved prim llm (orders k) limit S (batches ! k) results"
      by (simp add: run_batch_resolved) blast
    with len olen res show "length batches = length pages \<and>
           (\<exists>outs. res = JObj [(''restaurant_name'', JStr restaurant_name),
                                   (''pages'', JArr outs)] \<and>
                   length outs = length pages \<and>
                   (\<forall>k < length pages. \<exists>pn results.
                      build (pages ! k) = Inr (pn, batches ! k) \<and>
                      outs ! k = JObj [(''page_number'', pn), (''categories'', JArr results)] \<and>
                      resolved prim llm (orders k) limit S (batches ! k) results))"
      by blast
  qed
qed

lemma validate_list_nth:
  "validate_list prim t xs = Some ys \<Longrightarrow>
   \<forall>i < length xs. validate_type prim t (xs ! i) = Some (ys ! i)"
proof (induction xs arbitrary: ys)
  case Nil
  then show ?case by simp
next
  case (Cons x xs)
  from Cons.prems obtain y ys' where y: "validate_type prim t x = Some y"
    and ys': "validate_list prim t xs = Some ys'" and ys: "ys = y # ys'"
    by (auto split: option.splits)
  from Cons.IH [OF ys'] y ys show ?case by (auto simp: nth_Cons split: nat.splits)
qed

lemma Categories_validated_each:
  assumes "model_validate prim (Categories m) data = Inr v"
  shows "\<exists>cats. v = JObj [(''categories'', JArr cats)] \<and>
           (\<forall>xs. getitem data ''categories'' = Inr (JArr xs) \<longrightarrow>
                 length cats = length xs \<and>
                 (\<forall>i < length xs. model_validate prim (CategoryRef m) (xs ! i) = Inr (cats ! i))) \<and>
           (\<forall>e. getitem data ''categories'' = Inl e \<longrightarrow> cats = [])"
proof -
  from assms obtain kvs where data: "data = JObj kvs"
    by (cases data) (auto simp: model_validate_def Categories_def)
  show ?thesis
  proof (cases "map_of kvs ''categories''")
    case None
    with assms data show ?thesis
      by (auto simp: model_validate_def Categories_def split: if_splits)
  next
    case (Some c)
    with assms data obtain xs ys where c: "c = JArr xs"
      and ys: "validate_list prim (TModel (CategoryRef m)) xs = Some ys"
      and v: "v = JObj [(''categories'', JArr ys)]"
      by (cases c) (auto simp: model_validate_def Categories_def split: if_splits option.splits)
    from validate_list_nth [OF ys]
    have "\<forall>i < length xs. model_validate prim (CategoryRef m) (xs ! i) = Inr (ys ! i)"
      by (simp add: model_validate_def)
    with validate_list_length [OF ys] Some c v data show ?thesis by auto
  qed
qed

lemma phase2_coros_builds:
  "(\<exists>pn coros. phase2_coros prim restaurant_name images page = Inr (pn, coros)) \<longleftrightarrow>
   (\<exists>pn img data v. getitem page ''page_number'' = Inr pn \<and> page_image images pn = Inr img \<and>
      getitem page ''data'' = Inr data \<and>
      model_validate prim (Categories Utils_model) data = Inr v)"
proof
  assume "\<exists>pn coros. phase2_coros prim restaurant_name images page = Inr (pn, coros)"
  then obtain pn coros where "phase2_coros prim restaurant_name images page = Inr (pn, coros)"
    by blast
  from phase2_coros_Inr [OF this]
  show "\<exists>pn img data v. getitem page ''page_number'' = Inr pn \<and> page_image images pn = Inr img \<and>
      getitem page ''data'' = Inr data \<and>
      model_validate prim (Categories Utils_model) data = Inr v" by blast
next
  assume "\<exists>pn img data v. getitem page ''page_number'' = Inr pn \<and> page_image images pn = Inr img \<and>
      getitem page ''data'' = Inr data \<and>
      model_validate prim (Categories Utils_model) data = Inr v"
  then obtain pn img data v where pn: "getitem page ''page_number'' = Inr pn"
    and img: "page_image images pn = Inr img" and data: "getitem page ''data'' = Inr data"
    and v: "model_validate prim (Categories Utils_model) data = Inr v" by blast
  from Categories_validated [OF v] obtain cats where "v = JObj [(''categories'', JArr cats)]"
    by blast
  with pn img data v
  show "\<exists>pn coros. phase2_coros prim restaurant_name images page = Inr (pn, coros)"
    by (simp add: phase2_coros_def)
qed

lemma for_each_total:
  "(\<forall>i < length xs. \<exists>y. body (xs ! i) = Inr y) \<Longrightarrow> \<exists>ys. for_each body xs = Inr ys"
proof (induction xs)
  case Nil
  show ?case by simp
next
  case (Cons x xs)
  from Cons.prems have "\<exists>y. body ((x # xs) ! 0) = Inr y" by blast
  then obtain y where y: "body x = Inr y" by auto
  have "\<forall>i < length xs. \<exists>y. body (xs ! i) = Inr y"
  proof (intro allI impI)
    fix i assume "i < length xs"
    then have "Suc i < length (x # xs)" by simp
    with Cons.prems have "\<exists>y. body ((x # xs) ! Suc i) = Inr y" by blast
    then show "\<exists>y. body (xs ! i) = Inr y" by simp
  qed
  from Cons.IH [OF this] obtain ys where "for_each body xs = Inr ys" by blast
  with y show ?case by simp
qed

lemma phase2_coros_requests:
  assumes "phase2_coros prim restaurant_name images page = Inr (page_number, coros)"
  shows "\<exists>img data cats.
       getitem page ''page_number'' = Inr page_number \<and> page_image images page_number = Inr img \<and>
       getitem page ''data'' = Inr data \<and>
       model_validate prim (Categories Utils_model) data = Inr (JObj [(''categories'', JArr cats)]) \<and>
       (\<forall>xs. getitem data ''categories'' = Inr (JArr xs) \<longrightarrow>
             length cats = length xs \<and>
             (\<forall>i < length xs.
                model_validate prim (CategoryRef Utils_model) (xs ! i) = Inr (cats ! i))) \<and>
       (\<forall>e. getitem data ''categories'' = Inl e \<longrightarrow> cats = []) \<and>
       length coros = length cats \<and>
       (\<forall>i < length cats.
          coros ! i =
            \<lparr>prompt = Prompt ''phase2.j2''
                         [(''restaurant_name'', JStr restaurant_name),
                          (''page_number'', page_number), (''categories'', cats ! i)],
             image = img, response_format = CategorywithItems Utils_model\<rparr>)"
proof -
  from assms obtain img data v where
    pn: "getitem page ''page_number'' = Inr page_number" and
    img: "page_image images page_number = Inr img" and
    data: "getitem page ''data'' = Inr data" and
    v: "model_validate prim (Categories Utils_model) data = Inr v"
    by (auto simp: phase2_coros_def split: sum.splits)
  from Categories_validated_each [OF v] obtain cats where
    cats: "v = JObj [(''categories'', JArr cats)]" and
    len: "\<forall>xs. getitem data ''categories'' = Inr (JArr xs) \<longrightarrow>
             length cats = length xs \<and>
             (\<forall>i < length xs.
                model_validate prim (CategoryRef Utils_model) (xs ! i) = Inr (cats ! i))" and
    none: "\<forall>e. getitem data ''categories'' = Inl e \<longrightarrow> cats = []"
    by blast
  from assms pn img data v cats
  have coros: "coros = map (\<lambda>cat. call_openrouter (phase2_prompt restaurant_name page_number cat)
                                     img (CategorywithItems Utils_model)) cats"
    by (simp add: phase2_coros_def)
  then have l: "length coros = length cats" by simp
  from coros have "\<forall>i < length cats.
          coros ! i =
            \<lparr>prompt = Prompt ''phase2.j2''
                         [(''restaurant_name'', JStr restaurant_name),
                          (''page_number'', page_number), (''categories'', cats ! i)],
             image = img, response_format = CategorywithItems Utils_model\<rparr>"
    by (simp add: call_openrouter_def phase2_prompt_def)
  with pn img data v cats len none l show ?thesis by blast
qed

text \<open>
  Claim C6 (Stage-2 call pattern). Let the payload's \<^verbatim>\<open>pages\<close> be the list \<open>ps\<close> and let
  \<open>batches\<close> be the batches that \<open>run_phase2\<close> hands to the executor, in order.

  \<^item> Pages are processed one after the other: page \<open>k\<close> gets its batch exactly when
    every earlier page has got its batch and that batch is resolved (the executor
    returned on the calls of its requests, and every request was answered with a JSON
    text that the Stage-2 schema validates), and page \<open>k\<close> itself has a page number
    with an image and \<^verbatim>\<open>data\<close> that the Stage-1 schema validates.
  \<^item> The batch of a page has exactly one request per top-level category of the page's
    validated \<^verbatim>\<open>data\<close>, as many as the page's \<^verbatim>\<open>categories\<close> list has entries, in
    that order; the request carries the restaurant name, the page number and that one
    validated category (its subcategories travel inside it and get no request of their
    own), with the page's image and the Stage-2 response format.
  \<^item> When the run returns, every page has its batch, and the output page \<open>k\<close> holds
    the validated answers of the service to the requests of batch \<open>k\<close>, in order.
\<close>

theorem stage2_call_pattern:
  "getitem categories_payload ''pages'' = Inr (JArr ps) \<and>
   run_phase2 prim llm orders limit images store restaurant_name categories_payload
     = (out, store', batches) \<longrightarrow>
   length batches \<le> length ps \<and>
   (\<forall>k < length ps.
      (k < length batches) =
      ((\<forall>j < k. j < length batches \<and>
          (\<exists>results.
             (\<exists>responses. bounded_gather (orders j) (map llm (batches ! j)) limit
                            = Returns responses) \<and>
             length results = length (batches ! j) \<and>
             (\<forall>i < length (batches ! j). \<exists>obj.
                llm (batches ! j ! i) = Inr (JsonText obj) \<and>
                model_validate prim (CategorywithItems Utils_model) obj = Inr (results ! i)))) \<and>
       (\<exists>pn img data v.
          getitem (ps ! k) ''page_number'' = Inr pn \<and> page_image images pn = Inr img \<and>
          getitem (ps ! k) ''data'' = Inr data \<and>
          model_validate prim (Categories Utils_model) data = Inr v))) \<and>
   (\<forall>k < length batches. \<exists>page_number img data cats.
      getitem (ps ! k) ''page_number'' = Inr page_number \<and>
      page_image images page_number = Inr img \<and>
      getitem (ps ! k) ''data'' = Inr data \<and>
      model_validate prim (Categories Utils_model) data = Inr (JObj [(''categories'', JArr cats)]) \<and>
      (\<forall>xs. getitem data ''categories'' = Inr (JArr xs) \<longrightarrow>
            length cats = length xs \<and>
            (\<forall>i < length xs.
               model_validate prim (CategoryRef Utils_model) (xs ! i) = Inr (cats ! i))) \<and>
      (\<forall>e. getitem data ''categories'' = Inl e \<longrightarrow> cats = []) \<and>
      length (batches ! k) = length cats \<and>
      (\<forall>i < length cats.
         batches ! k ! i =
           \<lparr>prompt = Prompt ''phase2.j2''
                        [(''restaurant_name'', JStr restaurant_name),
                         (''page_number'', page_number), (''categories'', cats ! i)],
            image = img, response_format = CategorywithItems Utils_model\<rparr>)) \<and>
   (\<forall>output. out = Returns output \<longrightarrow>
      length batches = length ps \<and>
      (\<exists>outs. output = JObj [(''restaurant_name'', JStr restaurant_name), (''pages'', JArr outs)] \<and>
         length outs = length ps \<and>
         (\<forall>k < length ps. \<exists>pn results.
            getitem (ps ! k) ''page_number'' = Inr pn \<and>
            outs ! k = JObj [(''page_number'', pn), (''categories'', JArr results)] \<and>
            (\<exists>responses. bounded_gather (orders k) (map llm (batches ! k)) limit
                           = Returns responses) \<and>
            length results = length (batches ! k) \<and>
            (\<forall>i < length (batches ! k). \<exists>obj.
               llm (batches ! k ! i) = Inr (JsonText obj) \<and>
               model_validate prim (CategorywithItems Utils_model) obj = Inr (results ! i)))))"
proof (intro impI)
  assume a: "getitem categories_payload ''pages'' = Inr (JArr ps) \<and>
   run_phase2 prim llm orders limit images store restaurant_name categories_payload
     = (out, store', batches)"
  let ?S = "CategorywithItems Utils_model"
  let ?build = "phase2_coros prim restaurant_name images"
  from a have a1: "getitem categories_payload ''pages'' = Inr (JArr ps)"
    and a2: "run_phase2 prim llm orders limit images store restaurant_name categories_payload
               = (out, store', batches)" by simp_all
  from a2 have f: "finish ITEMS_FILE restaurant_name store
                     (run_pages prim llm orders limit ?S ?build 0 ps) = (out, store', batches)"
    by (simp add: run_phase2_def a1)
  note s = stage_schedule [OF f, unfolded resolved_def phase2_coros_builds]
  have 1: "length batches \<le> length ps" by (rule s(1))
  note 2 = s(3)
  have 3: "\<forall>k < length batches. \<exists>page_number img data cats.
      getitem (ps ! k) ''page_number'' = Inr page_number \<and>
      page_image images page_number = Inr img \<and>
      getitem (ps ! k) ''data'' = Inr data \<and>
      model_validate prim (Categories Utils_model) data = Inr (JObj [(''categories'', JArr cats)]) \<and>
      (\<forall>xs. getitem data ''categories'' = Inr (JArr xs) \<longrightarrow>
            length cats = length xs \<and>
            (\<forall>i < length xs.
               model_validate prim (CategoryRef Utils_model) (xs ! i) = Inr (cats ! i))) \<and>
      (\<forall>e. getitem data ''categories'' = Inl e \<longrightarrow> cats = []) \<and>
      length (batches ! k) = length cats \<and>
      (\<forall>i < length cats.
         batches ! k ! i =
           \<lparr>prompt = Prompt ''phase2.j2''
                        [(''restaurant_name'', JStr restaurant_name),
                         (''page_number'', page_number), (''categories'', cats ! i)],
            image = img, response_format = CategorywithItems Utils_model\<rparr>)"
  proof (intro allI impI)
    fix k assume "k < length batches"
    with s(2) obtain pn where "?build (ps ! k) = Inr (pn, batches ! k)" by blast
    from phase2_coros_requests [OF this] show "\<exists>page_number img data cats.
      getitem (ps ! k) ''page_number'' = Inr page_number \<and>
      page_image images page_number = Inr img \<and>
      getitem (ps ! k) ''data'' = Inr data \<and>
      model_validate prim (Categories Utils_model) data = Inr (JObj [(''categories'', JArr cats)]) \<and>
      (\<forall>xs. getitem data ''categories'' = Inr (JArr xs) \<longrightarrow>
            length cats = length xs \<and>
            (\<forall>i < length xs.
               model_validate prim (CategoryRef Utils_model) (xs ! i) = Inr (cats ! i))) \<and>
      (\<forall>e. getitem data ''categories'' = Inl e \<longrightarrow> cats = []) \<and>
      length (batches ! k) = length cats \<and>
      (\<forall>i < length cats.
         batches ! k ! i =
           \<lparr>prompt = Prompt ''phase2.j2''
                        [(''restaurant_name'', JStr restaurant_name),
                         (''page_number'', page_number), (''categories'', cats ! i)],
            image = img, response_format = CategorywithItems Utils_model\<rparr>)" by blast
  qed
  have 4: "\<forall>output. out = Returns output \<longrightarrow>
      length batches = length ps \<and>
      (\<exists>outs. output = JObj [(''restaurant_name'', JStr restaurant_name), (''pages'', JArr outs)] \<and>
         length outs = length ps \<and>
         (\<forall>k < length ps. \<exists>pn results.
            getitem (ps ! k) ''page_number'' = Inr pn \<and>
            outs ! k = JObj [(''page_number'', pn), (''categories'', JArr results)] \<and>
            (\<exists>responses. bounded_gather (orders k) (map llm (batches ! k)) limit
                           = Returns responses) \<and>
            length results = length (batches ! k) \<and>
            (\<forall>i < length (batches ! k). \<exists>obj.
               llm (batches ! k ! i) = Inr (JsonText obj) \<and>
               model_validate prim (CategorywithItems Utils_model) obj = Inr (results ! i))))"
  proof (intro allI impI)
    fix res assume "out = Returns res"
    with s(4) obtain outs where len: "length batches = length ps"
      and res: "res = JObj [(''restaurant_name'', JStr restaurant_name), (''pages'', JArr outs)]"
      and olen: "length outs = length ps"
      and each: "\<forall>k < length ps. \<exists>pn results.
            ?build (ps ! k) = Inr (pn, batches ! k) \<and>
            outs ! k = JObj [(''page_number'', pn), (''categories'', JArr results)] \<and>
            (\<exists>responses. bounded_gather (orders k) (map llm (batches ! k)) limit
                           = Returns responses) \<and>
            length results = length (batches ! k) \<and>
            (\<forall>i < length (batches ! k). \<exists>obj.
               llm (batches ! k ! i) = Inr (JsonText obj) \<and>
               model_validate prim ?S obj = Inr (results ! i))"
      by blast
    have "\<forall>k < length ps. \<exists>pn results.
            getitem (ps ! k) ''page_number'' = Inr pn \<and>
            outs ! k = JObj [(''page_number'', pn), (''categories'', JArr results)] \<and>
            (\<exists>responses. bounded_gather (orders k) (map llm (batches ! k)) limit
                           = Returns responses) \<and>
            length results = length (batches ! k) \<and>
            (\<forall>i < length (batches ! k). \<exists>obj.
               llm (batches ! k ! i) = Inr (JsonText obj) \<and>
               model_validate prim ?S obj = Inr (results ! i))"
    proof (intro allI impI)
      fix k assume "k < length ps"
      with each obtain pn results where b: "?build (ps ! k) = Inr (pn, batches ! k)"
        and rest: "outs ! k = JObj [(''page_number'', pn), (''categories'', JArr results)] \<and>
            (\<exists>responses. bounded_gather (orders k) (map llm (batches ! k)) limit
                           = Returns responses) \<and>
            length results = length (batches ! k) \<and>
            (\<forall>i < length (batches ! k). \<exists>obj.
               llm (batches ! k ! i) = Inr (JsonText obj) \<and>
               model_validate prim ?S obj = Inr (results ! i))" by blast
      from phase2_coros_Inr [OF b] have "getitem (ps ! k) ''page_number'' = Inr pn" by blast
      with rest show "\<exists>pn results.
            getitem (ps ! k) ''page_number'' = Inr pn \<and>
            outs ! k = JObj [(''page_number'', pn), (''categories'', JArr results)] \<and>
            (\<exists>responses. bounded_gather (orders k) (map llm (batches ! k)) limit
                           = Returns responses) \<and>
            length results = length (batches ! k) \<and>
            (\<forall>i < length (batches ! k). \<exists>obj.
               llm (batches ! k ! i) = Inr (JsonText obj) \<and>
               model_validate prim ?S obj = Inr (results ! i))" by blast
    qed
    with len res olen show "length batches = length ps \<and>
      (\<exists>outs. res = JObj [(''restaurant_name'', JStr restaurant_name), (''pages'', JArr outs)] \<and>
         length outs = length ps \<and>
         (\<forall>k < length ps. \<exists>pn results.
            getitem (ps ! k) ''page_number'' = Inr pn \<and>
            outs ! k = JObj [(''page_number'', pn), (''categories'', JArr results)] \<and>
            (\<exists>responses. bounded_gather (orders k) (map llm (batches ! k)) limit
                           = Returns responses) \<and>
            length results = length (batches ! k) \<and>
            (\<forall>i < length (batches ! k). \<exists>obj.
               llm (batches ! k ! i) = Inr (JsonText obj) \<and>
               model_validate prim (CategorywithItems Utils_model) obj = Inr (results ! i))))"
      by blast
  qed
  from 1 2 3 4 show "length batches \<le> length ps \<and>
   (\<forall>k < length ps.
      (k < length batches) =
      ((\<forall>j < k. j < length batches \<and>
          (\<exists>results.
             (\<exists>responses. bounded_gather (orders j) (map llm (batches ! j)) limit
                            = Returns responses) \<and>
             length results = length (batches ! j) \<and>
             (\<forall>i < length (batches ! j). \<exists>obj.
                llm (batches ! j ! i) = Inr (JsonText obj) \<and>
                model_validate prim (CategorywithItems Utils_model) obj = Inr (results ! i)))) \<and>
       (\<exists>pn img data v.
          getitem (ps ! k) ''page_number'' = Inr pn \<and> page_image images pn = Inr img \<and>
          getitem (ps ! k) ''data'' = Inr data \<and>
          model_validate prim (Categories Utils_model) data = Inr v))) \<and>
   (\<forall>k < length batches. \<exists>page_number img data cats.
      getitem (ps ! k) ''page_number'' = Inr page_number \<and>
      page_image images page_number = Inr img \<and>
      getitem (ps ! k) ''data'' = Inr data \<and>
      model_validate prim (Categories Utils_model) data = Inr (JObj [(''categories'', JArr cats)]) \<and>
      (\<forall>xs. getitem data ''categories'' = Inr (JArr xs) \<longrightarrow>
            length cats = length xs \<and>
            (\<forall>i < length xs.
               model_validate prim (CategoryRef Utils_model) (xs ! i) = Inr (cats ! i))) \<and>
      (\<forall>e. getitem data ''categories'' = Inl e \<longrightarrow> cats = []) \<and>
      length (batches ! k) = length cats \<and>
      (\<forall>i < length cats.
         batches ! k ! i =
           \<lparr>prompt = Prompt ''phase2.j2''
                        [(''restaurant_name'', JStr restaurant_name),
                         (''page_number'', page_number), (''categories'', cats ! i)],
            image = img, response_format = CategorywithItems Utils_model\<rparr>)) \<and>
   (\<forall>output. out = Returns output \<longrightarrow>
      length batches = length ps \<and>
      (\<exists>outs. output = JObj [(''restaurant_name'', JStr restaurant_name), (''pages'', JArr outs)] \<and>
         length outs = length ps \<and>
         (\<forall>k < length ps. \<exists>pn results.
            getitem (ps ! k) ''page_number'' = Inr pn \<and>
            outs ! k = JObj [(''page_number'', pn), (''categories'', JArr results)] \<and>
            (\<exists>responses. bounded_gather (orders k) (map llm (batches ! k)) limit
                           = Returns responses) \<and>
            length results = length (batches ! k) \<and>
            (\<forall>i < length (batches ! k). \<exists>obj.
               llm (batches ! k ! i) = Inr (JsonText obj) \<and>
               model_validate prim (CategorywithItems Utils_model) obj = Inr (results ! i)))))"
    by (intro conjI)
qed

theorem stage2_call_pattern_witness:
  "getitem two_page_categories ''pages'' = Inr (JArr [page_one, page_two]) \<and>
   fst (run_phase2 exact_prim items_reply (\<lambda>i. []) 4 [''img1'', ''img2'']
          Map.empty ''Amici'' two_page_categories) =
     Returns (envelope [envelope_page 1 [items_validated ''Dishes''],
                        envelope_page 2 [items_validated ''Dishes'']]) \<and>
   snd (snd (run_phase2 exact_prim items_reply (\<lambda>i. []) 4 [''img1'', ''img2'']
               Map.empty ''Amici'' two_page_categories)) =
     [[\<lparr>prompt = Prompt ''phase2.j2''
                    [(''restaurant_name'', JStr ''Amici''), (''page_number'', JInt 1),
                     (''categories'', appetizers)],
         image = ''img1'', response_format = CategorywithItems Utils_model\<rparr>],
      [\<lparr>prompt = Prompt ''phase2.j2''
                    [(''restaurant_name'', JStr ''Amici''), (''page_number'', JInt 2),
                     (''categories'', entrees)],
         image = ''img2'', response_format = CategorywithItems Utils_model\<rparr>]] \<and>
   length (snd (snd (run_phase2 exact_prim items_reply (\<lambda>i. []) 4 [''img1'', ''img2'']
                       Map.empty ''Amici'' two_page_categories))) = length [page_one, page_two]"
proof -
  let ?R = "run_phase2 exact_prim items_reply (\<lambda>i. []) 4 [''img1'', ''img2'']
              Map.empty ''Amici'' two_page_categories"
  have pages: "getitem two_page_categories ''pages'' = Inr (JArr [page_one, page_two])"
    by (simp add: two_page_categories_def)
  have run: "?R = (fst ?R, fst (snd ?R), snd (snd ?R))" by simp
  have out: "fst ?R =
     Returns (envelope [envelope_page 1 [items_validated ''Dishes''],
                        envelope_page 2 [items_validated ''Dishes'']])"
    by code_simp
  have batches: "snd (snd ?R) =
     [[\<lparr>prompt = Prompt ''phase2.j2''
                    [(''restaurant_name'', JStr ''Amici''), (''page_number'', JInt 1),
                     (''categories'', appetizers)],
         image = ''img1'', response_format = CategorywithItems Utils_model\<rparr>],
      [\<lparr>prompt = Prompt ''phase2.j2''
                    [(''restaurant_name'', JStr ''Amici''), (''page_number'', JInt 2),
                     (''categories'', entrees)],
         image = ''img2'', response_format = CategorywithItems Utils_model\<rparr>]]"
    by code_simp
  from stage2_call_pattern
         [of two_page_categories "[page_one, page_two]" exact_prim items_reply "\<lambda>i. []" 4
             "[''img1'', ''img2'']" Map.empty "''Amici''" "fst ?R" "fst (snd ?R)" "snd (snd ?R)"]
       pages run
  have "\<forall>output. fst ?R = Returns output \<longrightarrow>
          length (snd (snd ?R)) = length [page_one, page_two]"
    by blast
  with out have "length (snd (snd ?R)) = length [page_one, page_two]" by blast
  with pages out batches show ?thesis by (intro conjI)
qed

lemma phase4_coros_Inr:
  assumes "phase4_coros prim restaurant_name images (page, page_base) = Inr (page_number, coros)"
  shows "\<exists>img page_categories page_bases cats bases.
       getitem page ''page_number'' = Inr page_number \<and> page_image images page_number = Inr img \<and>
       getitem page ''categories'' = Inr page_categories \<and> iterate page_categories = Inr cats \<and>
       getitem page_base ''categories'' = Inr page_bases \<and> iterate page_bases = Inr bases \<and>
       length coros = min (length cats) (length bases) \<and>
       (\<forall>i < length coros. \<exists>cat' cat_base'.
          model_validate prim (CategorywithItems Utils_model) (cats ! i) = Inr cat' \<and>
          model_validate prim (CategoryBase Utils_model) (bases ! i) = Inr cat_base' \<and>
          coros ! i = call_openrouter
                        (phase4_prompt restaurant_name page_number
                           (JObj [(''category'', cat')]) (JObj [(''category_base'', cat_base')]))
                        img (CategoryItemAddons Utils_model))"
proof -
  let ?body = "\<lambda>img (cat, cat_base).
                case model_validate prim (CategorywithItems Utils_model) cat of
                  Inl e \<Rightarrow> Inl e
                | Inr cat' \<Rightarrow>
                    (case model_validate prim (CategoryBase Utils_model) cat_base of
                       Inl e \<Rightarrow> Inl e
                     | Inr cat_base' \<Rightarrow>
                         Inr (call_openrouter
                                (phase4_prompt restaurant_name page_number
                                   (JObj [(''category'', cat')])
                                   (JObj [(''category_base'', cat_base')]))
                                img (CategoryItemAddons Utils_model)))"
  from assms obtain img page_categories page_bases cats bases where
    pn: "getitem page ''page_number'' = Inr page_number" and
    img: "page_image images page_number = Inr img" and
    pc: "getitem page ''categories'' = Inr page_categories" and
    pb: "getitem page_base ''categories'' = Inr page_bases" and
    cats: "iterate page_categories = Inr cats" and
    bases: "iterate page_bases = Inr bases" and
    fe: "for_each (?body img) (zip cats bases) = Inr coros"
    by (auto simp: phase4_coros_def split: sum.splits)
  from for_each_Inr [OF fe]
  have len: "length coros = min (length cats) (length bases)"
    and each: "\<forall>i < length (zip cats bases). ?body img (zip cats bases ! i) = Inr (coros ! i)"
    by simp_all
  have "\<forall>i < length coros. \<exists>cat' cat_base'.
          model_validate prim (CategorywithItems Utils_model) (cats ! i) = Inr cat' \<and>
          model_validate prim (CategoryBase Utils_model) (bases ! i) = Inr cat_base' \<and>
          coros ! i = call_openrouter
                        (phase4_prompt restaurant_name page_number
                           (JObj [(''category'', cat')]) (JObj [(''category_base'', cat_base')]))
                        img (CategoryItemAddons Utils_model)"
  proof (intro allI impI)
    fix i assume i: "i < length coros"
    with len have i1: "i < length cats" and i2: "i < length bases" by simp_all
    from each i len have "?body img (cats ! i, bases ! i) = Inr (coros ! i)" by simp
    then show "\<exists>cat' cat_base'.
          model_validate prim (CategorywithItems Utils_model) (cats ! i) = Inr cat' \<and>
          model_validate prim (CategoryBase Utils_model) (bases ! i) = Inr cat_base' \<and>
          coros ! i = call_openrouter
                        (phase4_prompt restaurant_name page_number
                           (JObj [(''category'', cat')]) (JObj [(''category_base'', cat_base')]))
                        img (CategoryItemAddons Utils_model)"
      by (auto split: sum.splits)
  qed
  with pn img pc pb cats bases len show ?thesis by blast
qed

lemma run_phase4_pages:
  assumes "getitem category_payload ''pages'' = Inr (JArr ps)"
    and "getitem category_base_payload ''pages'' = Inr (JArr bs)"
  shows "run_phase4 prim llm orders limit images store restaurant_name category_payload
           category_base_payload =
         finish ITEMS_ADDONS_FILE restaurant_name store
           (run_pages prim llm orders limit (CategoryItemAddons Utils_model)
              (phase4_coros prim restaurant_name images) 0 (zip ps bs))"
  by (simp add: run_phase4_def assms)

lemma zip_take_min:
  "zip (take (min (length xs) (length ys)) xs) (take (min (length xs) (length ys)) ys) = zip xs ys"
proof -
  have "zip (take (min (length xs) (length ys)) xs) (take (min (length xs) (length ys)) ys)
        = take (min (length xs) (length ys)) (zip xs ys)"
    by (simp add: take_zip)
  also have "\<dots> = zip xs ys" by simp
  finally show ?thesis .
qed


lemma phase4_coros_builds:
  "(\<exists>pn coros. phase4_coros prim restaurant_name images (page, page_base) = Inr (pn, coros)) \<longleftrightarrow>
   (\<exists>pn img page_categories page_bases cats bases.
      getitem page ''page_number'' = Inr pn \<and> page_image images pn = Inr img \<and>
      getitem page ''categories'' = Inr page_categories \<and> iterate page_categories = Inr cats \<and>
      getitem page_base ''categories'' = Inr page_bases \<and> iterate page_bases = Inr bases \<and>
      (\<forall>i < min (length cats) (length bases).
         (\<exists>cat'. model_validate prim (CategorywithItems Utils_model) (cats ! i) = Inr cat') \<and>
         (\<exists>cat_base'. model_validate prim (CategoryBase Utils_model) (bases ! i) = Inr cat_base')))"
proof
  assume "\<exists>pn coros. phase4_coros prim restaurant_name images (page, page_base) = Inr (pn, coros)"
  then obtain pn coros where
    "phase4_coros prim restaurant_name images (page, page_base) = Inr (pn, coros)" by blast
  from phase4_coros_Inr [OF this]
  show "\<exists>pn img page_categories page_bases cats bases.
      getitem page ''page_number'' = Inr pn \<and> page_image images pn = Inr img \<and>
      getitem page ''categories'' = Inr page_categories \<and> iterate page_categories = Inr cats \<and>
      getitem page_base ''categories'' = Inr page_bases \<and> iterate page_bases = Inr bases \<and>
      (\<forall>i < min (length cats) (length bases).
         (\<exists>cat'. model_validate prim (CategorywithItems Utils_model) (cats ! i) = Inr cat') \<and>
         (\<exists>cat_base'. model_validate prim (CategoryBase Utils_model) (bases ! i) = Inr cat_base'))"
    by (metis (no_types, lifting))
next
  assume "\<exists>pn img page_categories page_bases cats bases.
      getitem page ''page_number'' = Inr pn \<and> page_image images pn = Inr img \<and>
      getitem page ''categories'' = Inr page_categories \<and> iterate page_categories = Inr cats \<and>
      getitem page_base ''categories'' = Inr page_bases \<and> iterate page_bases = Inr bases \<and>
      (\<forall>i < min (length cats) (length bases).
         (\<exists>cat'. model_validate prim (CategorywithItems Utils_model) (cats ! i) = Inr cat') \<and>
         (\<exists>cat_base'. model_validate prim (CategoryBase Utils_model) (bases ! i) = Inr cat_base'))"
  then obtain pn img page_categories page_bases cats bases where
    pn: "getitem page ''page_number'' = Inr pn" and img: "page_image images pn = Inr img" and
    pc: "getitem page ''categories'' = Inr page_categories" and
    cats: "iterate page_categories = Inr cats" and
    pb: "getitem page_base ''categories'' = Inr page_bases" and
    bases: "iterate page_bases = Inr bases" and
    each: "\<forall>i < min (length cats) (length bases).
         (\<exists>cat'. model_validate prim (CategorywithItems Utils_model) (cats ! i) = Inr cat') \<and>
         (\<exists>cat_base'. model_validate prim (CategoryBase Utils_model) (bases ! i) = Inr cat_base')"
    by blast
  let ?body = "\<lambda>(cat, cat_base).
                case model_validate prim (CategorywithItems Utils_model) cat of
                  Inl e \<Rightarrow> Inl e
                | Inr cat' \<Rightarrow>
                    (case model_validate prim (CategoryBase Utils_model) cat_base of
                       Inl e \<Rightarrow> Inl e
                     | Inr cat_base' \<Rightarrow>
                         Inr (call_openrouter
                                (phase4_prompt restaurant_name pn
                                   (JObj [(''category'', cat')])
                                   (JObj [(''category_base'', cat_base')]))
                                img (CategoryItemAddons Utils_model)))"
  have "\<forall>i < length (zip cats bases). \<exists>y. ?body (zip cats bases ! i) = Inr y"
  proof (intro allI impI)
    fix i assume i: "i < length (zip cats bases)"
    with each obtain c b where
      "model_validate prim (CategorywithItems Utils_model) (cats ! i) = Inr c"
      "model_validate prim (CategoryBase Utils_model) (bases ! i) = Inr b" by auto
    with i show "\<exists>y. ?body (zip cats bases ! i) = Inr y" by simp
  qed
  from for_each_total [OF this] obtain coros where
    "for_each ?body (zip cats bases) = Inr coros" by blast
  with pn img pc pb cats bases
  show "\<exists>pn coros. phase4_coros prim restaurant_name images (page, page_base) = Inr (pn, coros)"
    by (simp add: phase4_coros_def)
qed

lemma phase4_coros_requests:
  assumes "phase4_coros prim restaurant_name images (page, page_base) = Inr (page_number, coros)"
  shows "\<exists>img page_categories page_bases cats bases.
       getitem page ''page_number'' = Inr page_number \<and> page_image images page_number = Inr img \<and>
       getitem page ''categories'' = Inr page_categories \<and> iterate page_categories = Inr cats \<and>
       getitem page_base ''categories'' = Inr page_bases \<and> iterate page_bases = Inr bases \<and>
       length coros = min (length cats) (length bases) \<and>
       (length cats = length bases \<longrightarrow> length coros = length cats) \<and>
       (\<forall>i < length coros. \<exists>cat' cat_base'.
          model_validate prim (CategorywithItems Utils_model) (cats ! i) = Inr cat' \<and>
          model_validate prim (CategoryBase Utils_model) (bases ! i) = Inr cat_base' \<and>
          coros ! i =
            \<lparr>prompt = Prompt ''phase4.j2''
                         [(''restaurant_name'', JStr restaurant_name),
                          (''page_number'', page_number),
                          (''category'', JObj [(''category'', cat')]),
                          (''category_base'', JObj [(''category_base'', cat_base')])],
             image = img, response_format = CategoryItemAddons Utils_model\<rparr>)"
proof -
  from phase4_coros_Inr [OF assms] obtain img page_categories page_bases cats bases where
    pn: "getitem page ''page_number'' = Inr page_number" and
    img: "page_image images page_number = Inr img" and
    pc: "getitem page ''categories'' = Inr page_categories" and
    cats: "iterate page_categories = Inr cats" and
    pb: "getitem page_base ''categories'' = Inr page_bases" and
    bases: "iterate page_bases = Inr bases" and
    len: "length coros = min (length cats) (length bases)" and
    each: "\<forall>i < length coros. \<exists>cat' cat_base'.
          model_validate prim (CategorywithItems Utils_model) (cats ! i) = Inr cat' \<and>
          model_validate prim (CategoryBase Utils_model) (bases ! i) = Inr cat_base' \<and>
          coros ! i = call_openrouter
                        (phase4_prompt restaurant_name page_number
                           (JObj [(''category'', cat')]) (JObj [(''category_base'', cat_base')]))
                        img (CategoryItemAddons Utils_model)"
    by blast
  from len have same: "length cats = length bases \<longrightarrow> length coros = length cats" by simp
  from each have "\<forall>i < length coros. \<exists>cat' cat_base'.
          model_validate prim (CategorywithItems Utils_model) (cats ! i) = Inr cat' \<and>
          model_validate prim (CategoryBase Utils_model) (bases ! i) = Inr cat_base' \<and>
          coros ! i =
            \<lparr>prompt = Prompt ''phase4.j2''
                         [(''restaurant_name'', JStr restaurant_name),
                          (''page_number'', page_number),
                          (''category'', JObj [(''category'', cat')]),
                          (''category_base'', JObj [(''category_base'', cat_base')])],
             image = img, response_format = CategoryItemAddons Utils_model\<rparr>"
    by (simp add: call_openrouter_def phase4_prompt_def)
  with pn img pc cats pb bases len same show ?thesis by blast
qed

text \<open>
  Claim C7 (Stage-4 positional pairing). Let the \<^verbatim>\<open>pages\<close> of the Stage-2 and Stage-3
  payloads be \<open>ps\<close> and \<open>bs\<close>, and let \<open>batches\<close> be the batches that \<open>run_phase4\<close>
  hands to the executor, in order.

  \<^item> The \<open>k\<close>-th batch belongs to the \<open>k\<close>-th page of both lists. Its \<open>i\<close>-th
    request is for the \<open>i\<close>-th Stage-2 category and the \<open>i\<close>-th Stage-3 category of
    these pages, whatever their names are: its prompt carries the restaurant name, the
    number of the Stage-2 page, and both validated objects, the first under
    \<^verbatim>\<open>category\<close> and the second under \<^verbatim>\<open>category_base\<close>; it has the image of that
    page number and the Stage-4 response format. When the two category lists have the
    same length, the batch has exactly one request per pair.
  \<^item> Position \<open>k\<close> gets its batch exactly when every earlier position has got its
    batch and that batch is resolved, and the two pages of position \<open>k\<close> have a page
    number with an image, category lists, and categories that validate pair by pair.
  \<^item> When the run returns, every position has its batch, and the output page \<open>k\<close>
    holds the validated answers of the service to the requests of batch \<open>k\<close>, in order.
\<close>

theorem stage4_positional_pairing:
  "getitem category_payload ''pages'' = Inr (JArr ps) \<and>
   getitem category_base_payload ''pages'' = Inr (JArr bs) \<and>
   run_phase4 prim llm orders limit images store restaurant_name category_payload
     category_base_payload = (out, store', batches) \<longrightarrow>
   (\<forall>k < length batches. k < length ps \<and> k < length bs \<and>
      (\<exists>page_number img page_categories page_bases cats bases.
         getitem (ps ! k) ''page_number'' = Inr page_number \<and>
         page_image images page_number = Inr img \<and>
         getitem (ps ! k) ''categories'' = Inr page_categories \<and>
         iterate page_categories = Inr cats \<and>
         getitem (bs ! k) ''categories'' = Inr page_bases \<and>
         iterate page_bases = Inr bases \<and>
         length (batches ! k) = min (length cats) (length bases) \<and>
         (length cats = length bases \<longrightarrow> length (batches ! k) = length cats) \<and>
         (\<forall>i < length (batches ! k). \<exists>cat' cat_base'.
            model_validate prim (CategorywithItems Utils_model) (cats ! i) = Inr cat' \<and>
            model_validate prim (CategoryBase Utils_model) (bases ! i) = Inr cat_base' \<and>
            batches ! k ! i =
              \<lparr>prompt = Prompt ''phase4.j2''
                           [(''restaurant_name'', JStr restaurant_name),
                            (''page_number'', page_number),
                            (''category'', JObj [(''category'', cat')]),
                            (''category_base'', JObj [(''category_base'', cat_base')])],
               image = img, response_format = CategoryItemAddons Utils_model\<rparr>))) \<and>
   (\<forall>k < min (length ps) (length bs).
      (k < length batches) =
      ((\<forall>j < k. j < length batches \<and>
          (\<exists>results.
             (\<exists>responses. bounded_gather (orders j) (map llm (batches ! j)) limit
                            = Returns responses) \<and>
             length results = length (batches ! j) \<and>
             (\<forall>i < length (batches ! j). \<exists>obj.
                llm (batches ! j ! i) = Inr (JsonText obj) \<and>
                model_validate prim (CategoryItemAddons Utils_model) obj = Inr (results ! i)))) \<and>
       (\<exists>pn img page_categories page_bases cats bases.
          getitem (ps ! k) ''page_number'' = Inr pn \<and> page_image images pn = Inr img \<and>
          getitem (ps ! k) ''categories'' = Inr page_categories \<and>
          iterate page_categories = Inr cats \<and>
          getitem (bs ! k) ''categories'' = Inr page_bases \<and> iterate page_bases = Inr bases \<and>
          (\<forall>i < min (length cats) (length bases).
             (\<exists>cat'. model_validate prim (CategorywithItems Utils_model) (cats ! i) = Inr cat') \<and>
             (\<exists>cat_base'. model_validate prim (CategoryBase Utils_model) (bases ! i)
                            = Inr cat_base'))))) \<and>
   (\<forall>output. out = Returns output \<longrightarrow>
      length batches = min (length ps) (length bs) \<and>
      (\<exists>outs. output = JObj [(''restaurant_name'', JStr restaurant_name), (''pages'', JArr outs)] \<and>
         length outs = min (length ps) (length bs) \<and>
         (\<forall>k < min (length ps) (length bs). \<exists>pn results.
            getitem (ps ! k) ''page_number'' = Inr pn \<and>
            outs ! k = JObj [(''page_number'', pn), (''categories'', JArr results)] \<and>
            (\<exists>responses. bounded_gather (orders k) (map llm (batches ! k)) limit
                           = Returns responses) \<and>
            length results = length (batches ! k) \<and>
            (\<forall>i < length (batches ! k). \<exists>obj.
               llm (batches ! k ! i) = Inr (JsonText obj) \<and>
               model_validate prim (CategoryItemAddons Utils_model) obj = Inr (results ! i)))))"
proof (intro impI)
  assume a: "getitem category_payload ''pages'' = Inr (JArr ps) \<and>
   getitem category_base_payload ''pages'' = Inr (JArr bs) \<and>
   run_phase4 prim llm orders limit images store restaurant_name category_payload
     category_base_payload = (out, store', batches)"
  let ?S = "CategoryItemAddons Utils_model"
  let ?build = "phase4_coros prim restaurant_name images"
  let ?n = "min (length ps) (length bs)"
  from a have a1: "getitem category_payload ''pages'' = Inr (JArr ps)"
    and a2: "getitem category_base_payload ''pages'' = Inr (JArr bs)"
    and a3: "run_phase4 prim llm orders limit images store restaurant_name category_payload
               category_base_payload = (out, store', batches)" by simp_all
  from a3 have f: "finish ITEMS_ADDONS_FILE restaurant_name store
                     (run_pages prim llm orders limit ?S ?build 0 (zip ps bs))
                   = (out, store', batches)"
    by (simp add: run_phase4_pages [OF a1 a2])
  note s = stage_schedule [OF f, unfolded resolved_def]
  have n: "length (zip ps bs) = ?n" by simp
  have nth: "zip ps bs ! k = (ps ! k, bs ! k)" if "k < ?n" for k using that by simp
  from s(1) have le: "length batches \<le> ?n" by simp
  have 1: "\<forall>k < length batches. k < length ps \<and> k < length bs \<and>
      (\<exists>page_number img page_categories page_bases cats bases.
         getitem (ps ! k) ''page_number'' = Inr page_number \<and>
         page_image images page_number = Inr img \<and>
         getitem (ps ! k) ''categories'' = Inr page_categories \<and>
         iterate page_categories = Inr cats \<and>
         getitem (bs ! k) ''categories'' = Inr page_bases \<and>
         iterate page_bases = Inr bases \<and>
         length (batches ! k) = min (length cats) (length bases) \<and>
         (length cats = length bases \<longrightarrow> length (batches ! k) = length cats) \<and>
         (\<forall>i < length (batches ! k). \<exists>cat' cat_base'.
            model_validate prim (CategorywithItems Utils_model) (cats ! i) = Inr cat' \<and>
            model_validate prim (CategoryBase Utils_model) (bases ! i) = Inr cat_base' \<and>
            batches ! k ! i =
              \<lparr>prompt = Prompt ''phase4.j2''
                           [(''restaurant_name'', JStr restaurant_name),
                            (''page_number'', page_number),
                            (''category'', JObj [(''category'', cat')]),
                            (''category_base'', JObj [(''category_base'', cat_base')])],
               image = img, response_format = CategoryItemAddons Utils_model\<rparr>))"
  proof (intro allI impI)
    fix k assume k: "k < length batches"
    with le have kn: "k < ?n" by simp
    then have k1: "k < length ps" and k2: "k < length bs" by simp_all
    from s(2) k obtain pn where "?build (zip ps bs ! k) = Inr (pn, batches ! k)" by blast
    with nth [OF kn] have "?build (ps ! k, bs ! k) = Inr (pn, batches ! k)" by simp
    from phase4_coros_requests [OF this] k1 k2
    show "k < length ps \<and> k < length bs \<and>
      (\<exists>page_number img page_categories page_bases cats bases.
         getitem (ps ! k) ''page_number'' = Inr page_number \<and>
         page_image images page_number = Inr img \<and>
         getitem (ps ! k) ''categories'' = Inr page_categories \<and>
         iterate page_categories = Inr cats \<and>
         getitem (bs ! k) ''categories'' = Inr page_bases \<and>
         iterate page_bases = Inr bases \<and>
         length (batches ! k) = min (length cats) (length bases) \<and>
         (length cats = length bases \<longrightarrow> length (batches ! k) = length cats) \<and>
         (\<forall>i < length (batches ! k). \<exists>cat' cat_base'.
            model_validate prim (CategorywithItems Utils_model) (cats ! i) = Inr cat' \<and>
            model_validate prim (CategoryBase Utils_model) (bases ! i) = Inr cat_base' \<and>
            batches ! k ! i =
              \<lparr>prompt = Prompt ''phase4.j2''
                           [(''restaurant_name'', JStr restaurant_name),
                            (''page_number'', page_number),
                            (''category'', JObj [(''category'', cat')]),
                            (''category_base'', JObj [(''category_base'', cat_base')])],
               image = img, response_format = CategoryItemAddons Utils_model\<rparr>))"
      by blast
  qed
  have 2: "\<forall>k < ?n.
      (k < length batches) =
      ((\<forall>j < k. j < length batches \<and>
          (\<exists>results.
             (\<exists>responses. bounded_gather (orders j) (map llm (batches ! j)) limit
                            = Returns responses) \<and>
             length results = length (batches ! j) \<and>
             (\<forall>i < length (batches ! j). \<exists>obj.
                llm (batches ! j ! i) = Inr (JsonText obj) \<and>
                model_validate prim ?S obj = Inr (results ! i)))) \<and>
       (\<exists>pn img page_categories page_bases cats bases.
          getitem (ps ! k) ''page_number'' = Inr pn \<and> page_image images pn = Inr img \<and>
          getitem (ps ! k) ''categories'' = Inr page_categories \<and>
          iterate page_categories = Inr cats \<and>
          getitem (bs ! k) ''categories'' = Inr page_bases \<and> iterate page_bases = Inr bases \<and>
          (\<forall>i < min (length cats) (length bases).
             (\<exists>cat'. model_validate prim (CategorywithItems Utils_model) (cats ! i) = Inr cat') \<and>
             (\<exists>cat_base'. model_validate prim (CategoryBase Utils_model) (bases ! i)
                            = Inr cat_base'))))"
  proof (intro allI impI)
    fix k assume kn: "k < ?n"
    then have "k < length (zip ps bs)" by simp
    with s(3) have "(k < length batches) =
      ((\<forall>j < k. j < length batches \<and>
          (\<exists>results.
             (\<exists>responses. bounded_gather (orders j) (map llm (batches ! j)) limit
                            = Returns responses) \<and>
             length results = length (batches ! j) \<and>
             (\<forall>i < length (batches ! j). \<exists>obj.
                llm (batches ! j ! i) = Inr (JsonText obj) \<and>
                model_validate prim ?S obj = Inr (results ! i)))) \<and>
       (\<exists>pn coros. ?build (zip ps bs ! k) = Inr (pn, coros)))" by blast
    then show "(k < length batches) =
      ((\<forall>j < k. j < length batches \<and>
          (\<exists>results.
             (\<exists>responses. bounded_gather (orders j) (map llm (batches ! j)) limit
                            = Returns responses) \<and>
             length results = length (batches ! j) \<and>
             (\<forall>i < length (batches ! j). \<exists>obj.
                llm (batches ! j ! i) = Inr (JsonText obj) \<and>
                model_validate prim ?S obj = Inr (results ! i)))) \<and>
       (\<exists>pn img page_categories page_bases cats bases.
          getitem (ps ! k) ''page_number'' = Inr pn \<and> page_image images pn = Inr img \<and>
          getitem (ps ! k) ''categories'' = Inr page_categories \<and>
          iterate page_categories = Inr cats \<and>
          getitem (bs ! k) ''categories'' = Inr page_bases \<and> iterate page_bases = Inr bases \<and>
          (\<forall>i < min (length cats) (length bases).
             (\<exists>cat'. model_validate prim (CategorywithItems Utils_model) (cats ! i) = Inr cat') \<and>
             (\<exists>cat_base'. model_validate prim (CategoryBase Utils_model) (bases ! i)
                            = Inr cat_base'))))"
      by (simp only: nth [OF kn] phase4_coros_builds)
  qed
  have 3: "\<forall>output. out = Returns output \<longrightarrow>
      length batches = ?n \<and>
      (\<exists>outs. output = JObj [(''restaurant_name'', JStr restaurant_name), (''pages'', JArr outs)] \<and>
         length outs = ?n \<and>
         (\<forall>k < ?n. \<exists>pn results.
            getitem (ps ! k) ''page_number'' = Inr pn \<and>
            outs ! k = JObj [(''page_number'', pn), (''categories'', JArr results)] \<and>
            (\<exists>responses. bounded_gather (orders k) (map llm (batches ! k)) limit
                           = Returns responses) \<and>
            length results = length (batches ! k) \<and>
            (\<forall>i < length (batches ! k). \<exists>obj.
               llm (batches ! k ! i) = Inr (JsonText obj) \<and>
               model_validate prim ?S obj = Inr (results ! i))))"
  proof (intro allI impI)
    fix res assume "out = Returns res"
    with s(4) n obtain outs where len: "length batches = ?n"
      and res: "res = JObj [(''restaurant_name'', JStr restaurant_name), (''pages'', JArr outs)]"
      and olen: "length outs = ?n"
      and each: "\<forall>k < length (zip ps bs). \<exists>pn results.
            ?build (zip ps bs ! k) = Inr (pn, batches ! k) \<and>
            outs ! k = JObj [(''page_number'', pn), (''categories'', JArr results)] \<and>
            (\<exists>responses. bounded_gather (orders k) (map llm (batches ! k)) limit
                           = Returns responses) \<and>
            length results = length (batches ! k) \<and>
            (\<forall>i < length (batches ! k). \<exists>obj.
               llm (batches ! k ! i) = Inr (JsonText obj) \<and>
               model_validate prim ?S obj = Inr (results ! i))"
      by (metis (no_types, lifting))
    have "\<forall>k < ?n. \<exists>pn results.
            getitem (ps ! k) ''page_number'' = Inr pn \<and>
            outs ! k = JObj [(''page_number'', pn), (''categories'', JArr results)] \<and>
            (\<exists>responses. bounded_gather (orders k) (map llm (batches ! k)) limit
                           = Returns responses) \<and>
            length results = length (batches ! k) \<and>
            (\<forall>i < length (batches ! k). \<exists>obj.
               llm (batches ! k ! i) = Inr (JsonText obj) \<and>
               model_validate prim ?S obj = Inr (results ! i))"
    proof (intro allI impI)
      fix k assume kn: "k < ?n"
      with each n obtain pn results where b: "?build (zip ps bs ! k) = Inr (pn, batches ! k)"
        and rest: "outs ! k = JObj [(''page_number'', pn), (''categories'', JArr results)] \<and>
            (\<exists>responses. bounded_gather (orders k) (map llm (batches ! k)) limit
                           = Returns responses) \<and>
            length results = length (batches ! k) \<and>
            (\<forall>i < length (batches ! k). \<exists>obj.
               llm (batches ! k ! i) = Inr (JsonText obj) \<and>
               model_validate prim ?S obj = Inr (results ! i))"
        by (metis (no_types, lifting))
      from b nth [OF kn] have "?build (ps ! k, bs ! k) = Inr (pn, batches ! k)" by simp
      from phase4_coros_Inr [OF this] have "getitem (ps ! k) ''page_number'' = Inr pn" by blast
      with rest show "\<exists>pn results.
            getitem (ps ! k) ''page_number'' = Inr pn \<and>
            outs ! k = JObj [(''page_number'', pn), (''categories'', JArr results)] \<and>
            (\<exists>responses. bounded_gather (orders k) (map llm (batches ! k)) limit
                           = Returns responses) \<and>
            length results = length (batches ! k) \<and>
            (\<forall>i < length (batches ! k). \<exists>obj.
               llm (batches ! k ! i) = Inr (JsonText obj) \<and>
               model_validate prim ?S obj = Inr (results ! i))" by blast
    qed
    with len res olen show "length batches = ?n \<and>
      (\<exists>outs. res = JObj [(''restaurant_name'', JStr restaurant_name), (''pages'', JArr outs)] \<and>
         length outs = ?n \<and>
         (\<forall>k < ?n. \<exists>pn results.
            getitem (ps ! k) ''page_number'' = Inr pn \<and>
            outs ! k = JObj [(''page_number'', pn), (''categories'', JArr results)] \<and>
            (\<exists>responses. bounded_gather (orders k) (map llm (batches ! k)) limit
                           = Returns responses) \<and>
            length results = length (batches ! k) \<and>
            (\<forall>i < length (batches ! k). \<exists>obj.
               llm (batches ! k ! i) = Inr (JsonText obj) \<and>
               model_validate prim ?S obj = Inr (results ! i))))"
      by blast
  qed
  from 1 2 3 show "(\<forall>k < length batches. k < length ps \<and> k < length bs \<and>
      (\<exists>page_number img page_categories page_bases cats bases.
         getitem (ps ! k) ''page_number'' = Inr page_number \<and>
         page_image images page_number = Inr img \<and>
         getitem (ps ! k) ''categories'' = Inr page_categories \<and>
         iterate page_categories = Inr cats \<and>
         getitem (bs ! k) ''categories'' = Inr page_bases \<and>
         iterate page_bases = Inr bases \<and>
         length (batches ! k) = min (length cats) (length bases) \<and>
         (length cats = length bases \<longrightarrow> length (batches ! k) = length cats) \<and>
         (\<forall>i < length (batches ! k). \<exists>cat' cat_base'.
            model_validate prim (CategorywithItems Utils_model) (cats ! i) = Inr cat' \<and>
            model_validate prim (CategoryBase Utils_model) (bases ! i) = Inr cat_base' \<and>
            batches ! k ! i =
              \<lparr>prompt = Prompt ''phase4.j2''
                           [(''restaurant_name'', JStr restaurant_name),
                            (''page_number'', page_number),
                            (''category'', JObj [(''category'', cat')]),
                            (''category_base'', JObj [(''category_base'', cat_base')])],
               image = img, response_format = CategoryItemAddons Utils_model\<rparr>))) \<and>
   (\<forall>k < min (length ps) (length bs).
      (k < length batches) =
      ((\<forall>j < k. j < length batches \<and>
          (\<exists>results.
             (\<exists>responses. bounded_gather (orders j) (map llm (batches ! j)) limit
                            = Returns responses) \<and>
             length results = length (batches ! j) \<and>
             (\<forall>i < length (batches ! j). \<exists>obj.
                llm (batches ! j ! i) = Inr (JsonText obj) \<and>
                model_validate prim (CategoryItemAddons Utils_model) obj = Inr (results ! i)))) \<and>
       (\<exists>pn img page_categories page_bases cats bases.
          getitem (ps ! k) ''page_number'' = Inr pn \<and> page_image images pn = Inr img \<and>
          getitem (ps ! k) ''categories'' = Inr page_categories \<and>
          iterate page_categories = Inr cats \<and>
          getitem (bs ! k) ''categories'' = Inr page_bases \<and> iterate page_bases = Inr bases \<and>
          (\<forall>i < min (length cats) (length bases).
             (\<exists>cat'. model_validate prim (CategorywithItems Utils_model) (cats ! i) = Inr cat') \<and>
             (\<exists>cat_base'. model_validate prim (CategoryBase Utils_model) (bases ! i)
                            = Inr cat_base'))))) \<and>
   (\<forall>output. out = Returns output \<longrightarrow>
      length batches = min (length ps) (length bs) \<and>
      (\<exists>outs. output = JObj [(''restaurant_name'', JStr restaurant_name), (''pages'', JArr outs)] \<and>
         length outs = min (length ps) (length bs) \<and>
         (\<forall>k < min (length ps) (length bs). \<exists>pn results.
            getitem (ps ! k) ''page_number'' = Inr pn \<and>
            outs ! k = JObj [(''page_number'', pn), (''categories'', JArr results)] \<and>
            (\<exists>responses. bounded_gather (orders k) (map llm (batches ! k)) limit
                           = Returns responses) \<and>
            length results = length (batches ! k) \<and>
            (\<forall>i < length (batches ! k). \<exists>obj.
               llm (batches ! k ! i) = Inr (JsonText obj) \<and>
               model_validate prim (CategoryItemAddons Utils_model) obj = Inr (results ! i)))))"
    by (intro conjI)
qed

theorem stage4_positional_pairing_witness:
  "getitem two_page_items ''pages'' =
     Inr (JArr [envelope_page 1 [items_unit ''Appetizers''], envelope_page 2 [items_unit ''Entrees'']]) \<and>
   getitem two_page_bases ''pages'' =
     Inr (JArr [envelope_page 1 [base_unit ''Starters''], envelope_page 2 [base_unit ''Entrees'']]) \<and>
   fst (run_phase4 exact_prim addons_reply (\<lambda>i. []) 4 [''img1'', ''img2''] Map.empty
          ''Amici'' two_page_items two_page_bases) =
     Returns (envelope
                [envelope_page 1
                   [JObj [(''name_raw'', JStr ''Dishes''), (''subcategory_items'', JArr []),
                          (''items_addons'', JArr [])]],
                 envelope_page 2
                   [JObj [(''name_raw'', JStr ''Dishes''), (''subcategory_items'', JArr []),
                          (''items_addons'', JArr [])]]]) \<and>
   snd (snd (run_phase4 exact_prim addons_reply (\<lambda>i. []) 4 [''img1'', ''img2''] Map.empty
               ''Amici'' two_page_items two_page_bases)) =
     [[\<lparr>prompt = Prompt ''phase4.j2''
                    [(''restaurant_name'', JStr ''Amici''), (''page_number'', JInt 1),
                     (''category'', JObj [(''category'', items_validated ''Appetizers'')]),
                     (''category_base'', JObj [(''category_base'', base_validated ''Starters'')])],
         image = ''img1'', response_format = CategoryItemAddons Utils_model\<rparr>],
      [\<lparr>prompt = Prompt ''phase4.j2''
                    [(''restaurant_name'', JStr ''Amici''), (''page_number'', JInt 2),
                     (''category'', JObj [(''category'', items_validated ''Entrees'')]),
                     (''category_base'', JObj [(''category_base'', base_validated ''Entrees'')])],
         image = ''img2'', response_format = CategoryItemAddons Utils_model\<rparr>]] \<and>
   length (snd (snd (run_phase4 exact_prim addons_reply (\<lambda>i. []) 4 [''img1'', ''img2''] Map.empty
                       ''Amici'' two_page_items two_page_bases))) =
     min (length [envelope_page 1 [items_unit ''Appetizers''], envelope_page 2 [items_unit ''Entrees'']])
         (length [envelope_page 1 [base_unit ''Starters''], envelope_page 2 [base_unit ''Entrees'']])"
proof -
  let ?R = "run_phase4 exact_prim addons_reply (\<lambda>i. []) 4 [''img1'', ''img2''] Map.empty
              ''Amici'' two_page_items two_page_bases"
  have p: "getitem two_page_items ''pages'' =
     Inr (JArr [envelope_page 1 [items_unit ''Appetizers''], envelope_page 2 [items_unit ''Entrees'']])"
    by (simp add: two_page_items_def envelope_def)
  have b: "getitem two_page_bases ''pages'' =
     Inr (JArr [envelope_page 1 [base_unit ''Starters''], envelope_page 2 [base_unit ''Entrees'']])"
    by (simp add: two_page_bases_def envelope_def)
  have run: "?R = (fst ?R, fst (snd ?R), snd (snd ?R))" by simp
  have out: "fst ?R =
     Returns (envelope
                [envelope_page 1
                   [JObj [(''name_raw'', JStr ''Dishes''), (''subcategory_items'', JArr []),
                          (''items_addons'', JArr [])]],
                 envelope_page 2
                   [JObj [(''name_raw'', JStr ''Dishes''), (''subcategory_items'', JArr []),
                          (''items_addons'', JArr [])]]])"
    by code_simp
  have batches: "snd (snd ?R) =
     [[\<lparr>prompt = Prompt ''phase4.j2''
                    [(''restaurant_name'', JStr ''Amici''), (''page_number'', JInt 1),
                     (''category'', JObj [(''category'', items_validated ''Appetizers'')]),
                     (''category_base'', JObj [(''category_base'', base_validated ''Starters'')])],
         image = ''img1'', response_format = CategoryItemAddons Utils_model\<rparr>],
      [\<lparr>prompt = Prompt ''phase4.j2''
                    [(''restaurant_name'', JStr ''Amici''), (''page_number'', JInt 2),
                     (''category'', JObj [(''category'', items_validated ''Entrees'')]),
                     (''category_base'', JObj [(''category_base'', base_validated ''Entrees'')])],
         image = ''img2'', response_format = CategoryItemAddons Utils_model\<rparr>]]"
    by code_simp
  from stage4_positional_pairing
         [of two_page_items _ two_page_bases _ exact_prim addons_reply "\<lambda>i. []" 4
             "[''img1'', ''img2'']" Map.empty "''Amici''" "fst ?R" "fst (snd ?R)" "snd (snd ?R)"]
       p b run
  have "\<forall>output. fst ?R = Returns output \<longrightarrow>
          length (snd (snd ?R)) =
          min (length [envelope_page 1 [items_unit ''Appetizers''],
                       envelope_page 2 [items_unit ''Entrees'']])
              (length [envelope_page 1 [base_unit ''Starters''],
                       envelope_page 2 [base_unit ''Entrees'']])"
    by blast
  with out have "length (snd (snd ?R)) =
          min (length [envelope_page 1 [items_unit ''Appetizers''],
                       envelope_page 2 [items_unit ''Entrees'']])
              (length [envelope_page 1 [base_unit ''Starters''],
                       envelope_page 2 [base_unit ''Entrees'']])"
    by blast
  with p b out batches show ?thesis by (intro conjI)
qed

lemma phase4_coros_truncated:
  assumes "getitem page ''categories'' = Inr (JArr cats)"
    and "getitem page_base ''categories'' = Inr (JArr bases)"
    and "getitem page' ''page_number'' = getitem page ''page_number''"
    and "getitem page' ''categories'' = Inr (JArr (take (min (length cats) (length bases)) cats))"
    and "getitem page_base' ''categories'' =
           Inr (JArr (take (min (length cats) (length bases)) bases))"
  shows "phase4_coros prim restaurant_name images (page', page_base') =
         phase4_coros prim restaurant_name images (page, page_base)"
  by (simp add: phase4_coros_def assms zip_take_min cong: sum.case_cong)

text \<open>
  Claim C10 (silent truncation in Stage 4). When the page lists of the two payloads differ
  in length, \<open>run_phase4\<close> does exactly what it does on the two lists cut to the shorter
  length: the surplus pages play no part, and no exception comes from the mismatch. It
  hands at most as many batches to the executor as the shorter list has pages, and that
  many when it returns. The same holds inside a page: the requests are those of the two
  category lists cut to the shorter length, and there are as many requests as the
  shorter list has categories.
\<close>

theorem stage4_zip_truncates:
  "(getitem p ''pages'' = Inr (JArr ps) \<and> getitem b ''pages'' = Inr (JArr bs) \<and>
    getitem p' ''pages'' = Inr (JArr (take (min (length ps) (length bs)) ps)) \<and>
    getitem b' ''pages'' = Inr (JArr (take (min (length ps) (length bs)) bs)) \<longrightarrow>
      run_phase4 prim llm orders limit images store restaurant_name p' b' =
      run_phase4 prim llm orders limit images store restaurant_name p b) \<and>
   (getitem p ''pages'' = Inr (JArr ps) \<and> getitem b ''pages'' = Inr (JArr bs) \<and>
    run_phase4 prim llm orders limit images store restaurant_name p b = (out, store', batches) \<longrightarrow>
      length batches \<le> min (length ps) (length bs) \<and>
      ((\<exists>output. out = Returns output) \<longrightarrow> length batches = min (length ps) (length bs))) \<and>
   (getitem page ''categories'' = Inr (JArr cats) \<and>
    getitem page_base ''categories'' = Inr (JArr bases) \<and>
    getitem page' ''page_number'' = getitem page ''page_number'' \<and>
    getitem page' ''categories'' = Inr (JArr (take (min (length cats) (length bases)) cats)) \<and>
    getitem page_base' ''categories'' =
      Inr (JArr (take (min (length cats) (length bases)) bases)) \<longrightarrow>
      phase4_coros prim restaurant_name images (page', page_base') =
      phase4_coros prim restaurant_name images (page, page_base)) \<and>
   (getitem page ''categories'' = Inr (JArr cats) \<and>
    getitem page_base ''categories'' = Inr (JArr bases) \<and>
    phase4_coros prim restaurant_name images (page, page_base) = Inr (page_number, coros) \<longrightarrow>
      length coros = min (length cats) (length bases))"
proof -
  let ?S = "CategoryItemAddons Utils_model"
  let ?build = "phase4_coros prim restaurant_name images"
  have pages: "run_phase4 prim llm orders limit images store restaurant_name p' b' =
               run_phase4 prim llm orders limit images store restaurant_name p b"
    if 1: "getitem p ''pages'' = Inr (JArr ps)" and 2: "getitem b ''pages'' = Inr (JArr bs)"
      and 3: "getitem p' ''pages'' = Inr (JArr (take (min (length ps) (length bs)) ps))"
      and 4: "getitem b' ''pages'' = Inr (JArr (take (min (length ps) (length bs)) bs))"
    by (simp only: run_phase4_pages [OF 1 2] run_phase4_pages [OF 3 4] zip_take_min)
  have count: "length batches \<le> min (length ps) (length bs) \<and>
      ((\<exists>output. out = Returns output) \<longrightarrow> length batches = min (length ps) (length bs))"
    if 1: "getitem p ''pages'' = Inr (JArr ps)" and 2: "getitem b ''pages'' = Inr (JArr bs)"
      and 3: "run_phase4 prim llm orders limit images store restaurant_name p b
                = (out, store', batches)"
  proof -
    obtain out0 batches0 where
      r: "run_pages prim llm orders limit ?S ?build 0 (zip ps bs) = (out0, batches0)"
      by (cases "run_pages prim llm orders limit ?S ?build 0 (zip ps bs)")
    from 3 have f: "finish ITEMS_ADDONS_FILE restaurant_name store (out0, batches0)
                      = (out, store', batches)"
      by (simp add: run_phase4_pages [OF 1 2] r)
    from run_pages_batches [OF r] finish_parts [OF f] show ?thesis by simp
  qed
  have page: "phase4_coros prim restaurant_name images (page', page_base') =
              phase4_coros prim restaurant_name images (page, page_base)"
    if "getitem page ''categories'' = Inr (JArr cats)"
      and "getitem page_base ''categories'' = Inr (JArr bases)"
      and "getitem page' ''page_number'' = getitem page ''page_number''"
      and "getitem page' ''categories'' = Inr (JArr (take (min (length cats) (length bases)) cats))"
      and "getitem page_base' ''categories'' =
             Inr (JArr (take (min (length cats) (length bases)) bases))"
    using that by (rule phase4_coros_truncated)
  have requests: "length coros = min (length cats) (length bases)"
    if 1: "getitem page ''categories'' = Inr (JArr cats)"
      and 2: "getitem page_base ''categories'' = Inr (JArr bases)"
      and 3: "phase4_coros prim restaurant_name images (page, page_base) = Inr (page_number, coros)"
    using phase4_coros_Inr [OF 3] 1 2 by auto
  from pages count page requests show ?thesis by blast
qed

theorem stage4_zip_truncates_witness:
  "getitem two_page_items ''pages'' =
     Inr (JArr [envelope_page 1 [items_unit ''Appetizers''], envelope_page 2 [items_unit ''Entrees'']]) \<and>
   getitem one_page_bases ''pages'' =
     Inr (JArr [envelope_page 1 [base_unit ''Appetizers'', base_unit ''Soups'']]) \<and>
   fst (run_phase4 exact_prim addons_reply (\<lambda>i. []) 4 [''img1'', ''img2''] Map.empty ''Amici''
          two_page_items one_page_bases) =
     Returns (envelope [envelope_page 1
                [JObj [(''name_raw'', JStr ''Dishes''), (''subcategory_items'', JArr []),
                       (''items_addons'', JArr [])]]]) \<and>
   snd (snd (run_phase4 exact_prim addons_reply (\<lambda>i. []) 4 [''img1'', ''img2''] Map.empty
               ''Amici'' two_page_items one_page_bases)) =
     [[call_openrouter
         (phase4_prompt ''Amici'' (JInt 1) (JObj [(''category'', items_validated ''Appetizers'')])
            (JObj [(''category_base'', base_validated ''Appetizers'')]))
         ''img1'' (CategoryItemAddons Utils_model)]] \<and>
   length (snd (snd (run_phase4 exact_prim addons_reply (\<lambda>i. []) 4 [''img1'', ''img2''] Map.empty
               ''Amici'' two_page_items one_page_bases))) =
     min (length [envelope_page 1 [items_unit ''Appetizers''], envelope_page 2 [items_unit ''Entrees'']])
         (length [envelope_page 1 [base_unit ''Appetizers'', base_unit ''Soups'']])"
proof -
  let ?R = "run_phase4 exact_prim addons_reply (\<lambda>i. []) 4 [''img1'', ''img2''] Map.empty
              ''Amici'' two_page_items one_page_bases"
  have p: "getitem two_page_items ''pages'' =
     Inr (JArr [envelope_page 1 [items_unit ''Appetizers''], envelope_page 2 [items_unit ''Entrees'']])"
    by (simp add: two_page_items_def envelope_def)
  have b: "getitem one_page_bases ''pages'' =
     Inr (JArr [envelope_page 1 [base_unit ''Appetizers'', base_unit ''Soups'']])"
    by (simp add: one_page_bases_def envelope_def)
  have run: "?R = (fst ?R, fst (snd ?R), snd (snd ?R))" by simp
  have out: "fst ?R =
     Returns (envelope [envelope_page 1
                [JObj [(''name_raw'', JStr ''Dishes''), (''subcategory_items'', JArr []),
                       (''items_addons'', JArr [])]]])"
    by code_simp
  have batches: "snd (snd ?R) =
     [[call_openrouter
         (phase4_prompt ''Amici'' (JInt 1) (JObj [(''category'', items_validated ''Appetizers'')])
            (JObj [(''category_base'', base_validated ''Appetizers'')]))
         ''img1'' (CategoryItemAddons Utils_model)]]"
    by code_simp
  from stage4_zip_truncates
         [of two_page_items _ one_page_bases _ JNull JNull exact_prim addons_reply "\<lambda>i. []" 4
             "[''img1'', ''img2'']" Map.empty "''Amici''" "fst ?R" "fst (snd ?R)" "snd (snd ?R)"]
       p b run out
  have "length (snd (snd ?R)) =
     min (length [envelope_page 1 [items_unit ''Appetizers''], envelope_page 2 [items_unit ''Entrees'']])
         (length [envelope_page 1 [base_unit ''Appetizers'', base_unit ''Soups'']])"
    by blast
  with p b out batches show ?thesis by blast
qed


section \<open>Properties of the review backend\<close>

lemma update_phase2_items_frame:
  "file_path \<noteq> PHASE2_FINAL_ITEMS \<Longrightarrow>
   snd (update_phase2_items prim store payload) file_path = store file_path"
  by (simp add: update_phase2_items_def save_json_file_def split: sum.splits)

lemma check_required_files_present:
  "(\<forall>file_path \<in> set file_paths. store file_path \<noteq> None) \<Longrightarrow>
   check_required_files store file_paths = Inr ()"
  by (induction file_paths) auto

lemma target_category_KeyError:
  "map_of kvs ''name'' = None \<Longrightarrow>
   target_category category_name (JObj kvs # cats) = Inl (KeyError ''name'')"
  by simp

lemma target_category_validated:
  assumes "model_validate prim (CategoryRef m) cat = Inr validated"
  shows "target_category category_name (validated # cats) = Inl (KeyError ''name'')"
proof -
  from model_validate_keys [OF assms] obtain kvs where
    v: "validated = JObj kvs" and k: "map fst kvs = declared (CategoryRef m)" by blast
  have "''name'' \<notin> set (map fst kvs)"
    by (simp add: k declared_def CategoryRef_def)
  then have "map_of kvs ''name'' = None" by (simp add: map_of_eq_None_iff)
  then show ?thesis by (simp add: v)
qed

text \<open>
  Claim C4 (invalidation cascade). On the files of a complete run, saving an edited
  Stage-2 artifact through \<open>update_phase2_items\<close> succeeds and writes the Stage-2 file
  only: the Stage-3 and Stage-4 artifacts stay in place. The file check of the Stage-4
  endpoint then passes, and \<open>extract_addons\<close> hands the edited items together with the
  Stage-3 artifact of before the edit to the Stage-4 runner; the error for a missing
  required file is what the check gives only once the Stage-3 file is gone. The same
  edit in the interactive front end removes the Stage-3 and Stage-4 results and leaves
  Stage 4 disabled.
\<close>

theorem stage2_edit_keeps_later_artifacts:
  "update_phase2_items exact_prim complete_run edited_items =
     (Returns (JObj [(''success'', JBool True), (''message'', JStr ''Items updated successfully'')]),
      complete_run(PHASE2_FINAL_ITEMS \<mapsto> JsonText edited_items_json)) \<and>
   (complete_run(PHASE2_FINAL_ITEMS \<mapsto> JsonText edited_items_json)) PHASE3_FINAL_BASES =
     Some (JsonText two_page_bases) \<and>
   (complete_run(PHASE2_FINAL_ITEMS \<mapsto> JsonText edited_items_json)) PHASE4_FINAL_ITEMS_ADDONS =
     Some (JsonText two_page_addons) \<and>
   check_required_files (complete_run(PHASE2_FINAL_ITEMS \<mapsto> JsonText edited_items_json))
     [PHASE2_FINAL_ITEMS, PHASE3_FINAL_BASES, UPLOADED_PDF_PATH] = Inr () \<and>
   extract_addons extractor_run_phase4
       (complete_run(PHASE2_FINAL_ITEMS \<mapsto> JsonText edited_items_json)) =
     (case extractor_run_phase4 (JStr ''Amici'') edited_items_json two_page_bases
             UPLOADED_PDF_PATH (complete_run(PHASE2_FINAL_ITEMS \<mapsto> JsonText edited_items_json)) of
        (Returns result, store') \<Rightarrow>
          (Returns (JObj [(''success'', JBool True),
                          (''message'', JStr ''Items with addons extraction complete''),
                          (''phase4_result'', result)]),
           store')
      | (Raises e, store') \<Rightarrow> (Raises e, store')
      | (Hangs, store') \<Rightarrow> (Hangs, store')) \<and>
   check_required_files
       (complete_run(PHASE2_FINAL_ITEMS \<mapsto> JsonText edited_items_json, PHASE3_FINAL_BASES := None))
       [PHASE2_FINAL_ITEMS, PHASE3_FINAL_BASES, UPLOADED_PDF_PATH] =
     Inl (HTTPException 400
            ''Required file not found: category_bases_all_pages.json. Please complete previous phases.'') \<and>
   editable_json complete_session ''phase2_result'' [''phase3_result'', ''phase4_result'']
       (JsonText edited_items_json) ''phase2_result'' = Some edited_items_json \<and>
   editable_json complete_session ''phase2_result'' [''phase3_result'', ''phase4_result'']
       (JsonText edited_items_json) ''phase3_result'' = None \<and>
   editable_json complete_session ''phase2_result'' [''phase3_result'', ''phase4_result'']
       (JsonText edited_items_json) ''phase4_result'' = None \<and>
   run_phase4_disabled (Some [''img1'', ''img2''])
     (editable_json complete_session ''phase2_result'' [''phase3_result'', ''phase4_result'']
        (JsonText edited_items_json))"
proof -
  let ?store = "complete_run(PHASE2_FINAL_ITEMS \<mapsto> JsonText edited_items_json)"
  let ?session = "editable_json complete_session ''phase2_result''
                    [''phase3_result'', ''phase4_result''] (JsonText edited_items_json)"
  have dump: "model_dump (items_restaurant_name edited_items) (items_pages edited_items)
                = edited_items_json"
    by (simp add: model_dump_def edited_items_def edited_items_json_def envelope_def
                  envelope_page_def)
  have valid: "fst (update_phase2_items exact_prim complete_run edited_items) =
     Returns (JObj [(''success'', JBool True), (''message'', JStr ''Items updated successfully'')])"
    by code_simp
  have save: "update_phase2_items exact_prim complete_run edited_items =
     (Returns (JObj [(''success'', JBool True), (''message'', JStr ''Items updated successfully'')]),
      ?store)"
    using valid
    by (simp add: update_phase2_items_def save_json_file_def dump split: sum.splits)
  have bases: "?store PHASE3_FINAL_BASES = Some (JsonText two_page_bases)"
    by (simp add: complete_run_def PHASE2_FINAL_ITEMS_def PHASE3_FINAL_BASES_def
                  PHASE4_FINAL_ITEMS_ADDONS_def)
  have addons: "?store PHASE4_FINAL_ITEMS_ADDONS = Some (JsonText two_page_addons)"
    by (simp add: complete_run_def PHASE2_FINAL_ITEMS_def PHASE3_FINAL_BASES_def
                  PHASE4_FINAL_ITEMS_ADDONS_def)
  have pdf: "?store UPLOADED_PDF_PATH = Some pdf_bytes"
    by (simp add: complete_run_def PHASE2_FINAL_ITEMS_def PHASE3_FINAL_BASES_def
                  PHASE4_FINAL_ITEMS_ADDONS_def UPLOADED_PDF_PATH_def PHASE2_INPUT_REVIEWED_def)
  have items: "?store PHASE2_FINAL_ITEMS = Some (JsonText edited_items_json)" by simp
  have check: "check_required_files ?store
                 [PHASE2_FINAL_ITEMS, PHASE3_FINAL_BASES, UPLOADED_PDF_PATH] = Inr ()"
    by (simp add: items bases pdf del: fun_upd_apply)
  have name: "getitem edited_items_json ''restaurant_name'' = Inr (JStr ''Amici'')"
    by (simp add: edited_items_json_def envelope_def)
  have run: "extract_addons extractor_run_phase4 ?store =
     (case extractor_run_phase4 (JStr ''Amici'') edited_items_json two_page_bases
             UPLOADED_PDF_PATH ?store of
        (Returns result, store') \<Rightarrow>
          (Returns (JObj [(''success'', JBool True),
                          (''message'', JStr ''Items with addons extraction complete''),
                          (''phase4_result'', result)]),
           store')
      | (Raises e, store') \<Rightarrow> (Raises e, store')
      | (Hangs, store') \<Rightarrow> (Hangs, store'))"
    unfolding extract_addons_def check load_json_file_def items bases
    by (simp add: name)
  have ne: "PHASE3_FINAL_BASES \<noteq> PHASE2_FINAL_ITEMS" "PHASE3_FINAL_BASES \<noteq> UPLOADED_PDF_PATH"
    by (simp_all add: PHASE2_FINAL_ITEMS_def PHASE3_FINAL_BASES_def UPLOADED_PDF_PATH_def)
  have name3: "path_name PHASE3_FINAL_BASES = ''category_bases_all_pages.json''"
    by code_simp
  have missing: "check_required_files (?store(PHASE3_FINAL_BASES := None))
       [PHASE2_FINAL_ITEMS, PHASE3_FINAL_BASES, UPLOADED_PDF_PATH] =
     Inl (HTTPException 400
            ''Required file not found: category_bases_all_pages.json. Please complete previous phases.'')"
  proof -
    have m2: "(?store(PHASE3_FINAL_BASES := None)) PHASE2_FINAL_ITEMS
                = Some (JsonText edited_items_json)"
      using ne by simp
    have m3: "(?store(PHASE3_FINAL_BASES := None)) PHASE3_FINAL_BASES = None" by simp
    show ?thesis using ne by (simp add: m2 m3 name3 del: fun_upd_apply)
  qed
  have s2: "?session ''phase2_result'' = Some edited_items_json" by code_simp
  have s3: "?session ''phase3_result'' = None" by code_simp
  have s4: "?session ''phase4_result'' = None" by code_simp
  have off: "run_phase4_disabled (Some [''img1'', ''img2'']) ?session"
    by (simp add: run_phase4_disabled_def get_state_def s3)
  from save bases addons check run missing s2 s3 s4 off show ?thesis by (intro conjI)
qed

theorem stage2_edit_keeps_later_artifacts_witness:
  "extract_addons (\<lambda>restaurant_name items_data bases_data pdf_path store. (Returns bases_data, store))
       (snd (update_phase2_items exact_prim complete_run edited_items)) =
     (Returns (JObj [(''success'', JBool True),
                     (''message'', JStr ''Items with addons extraction complete''),
                     (''phase4_result'', two_page_bases)]),
      complete_run(PHASE2_FINAL_ITEMS \<mapsto> JsonText edited_items_json)) \<and>
   getitem two_page_bases ''pages'' =
     Inr (JArr [envelope_page 1 [base_unit ''Starters''], envelope_page 2 [base_unit ''Entrees'']]) \<and>
   getitem edited_items_json ''pages'' =
     Inr (JArr [envelope_page 1 [items_unit ''Small Plates''],
                envelope_page 2 [items_unit ''Entrees'']])"
proof -
  note edit = stage2_edit_keeps_later_artifacts
                [of "\<lambda>restaurant_name items_data bases_data pdf_path store. (Returns bases_data, store)"]
  from edit have store: "snd (update_phase2_items exact_prim complete_run edited_items) =
                   complete_run(PHASE2_FINAL_ITEMS \<mapsto> JsonText edited_items_json)"
    by simp
  from edit have "extract_addons
       (\<lambda>restaurant_name items_data bases_data pdf_path store. (Returns bases_data, store))
       (complete_run(PHASE2_FINAL_ITEMS \<mapsto> JsonText edited_items_json)) =
     (Returns (JObj [(''success'', JBool True),
                     (''message'', JStr ''Items with addons extraction complete''),
                     (''phase4_result'', two_page_bases)]),
      complete_run(PHASE2_FINAL_ITEMS \<mapsto> JsonText edited_items_json))"
    by simp
  then show ?thesis
    by (simp add: store two_page_bases_def edited_items_json_def envelope_def)
qed

text \<open>
  Claim C8 (partial re-extraction lookup). On a reviewed artifact whose categories have
  the fields of the schema (\<^verbatim>\<open>name_raw\<close>, \<^verbatim>\<open>subcategories\<close>), the category search of
  \<open>reextract_category_items\<close> ends with the exception \<^verbatim>\<open>KeyError\<close> for the key
  \<^verbatim>\<open>name\<close>, both for a category that the page has and for one that it has not; the
  search of \<open>reextract_category_addons\<close> does the same on the Stage-2 artifact. A page
  number that no page has gives the 404 error of the page.
\<close>

theorem reextraction_lookup_reads_name:
  "fst (reextract_category_items (\<lambda>s n. False) exact_prim items_reply [''img1'', ''img2'']
          complete_run ''Appetizers'' 1) = Raises (KeyError ''name'') \<and>
   fst (reextract_category_items (\<lambda>s n. False) exact_prim items_reply [''img1'', ''img2'']
          complete_run ''Desserts'' 1) = Raises (KeyError ''name'') \<and>
   fst (reextract_category_items (\<lambda>s n. False) exact_prim items_reply [''img1'', ''img2'']
          complete_run ''Appetizers'' 3) = Raises (HTTPException 404 ''Page 3 not found'') \<and>
   fst (reextract_category_addons (\<lambda>s n. False) exact_prim addons_reply [''img1'', ''img2'']
          complete_run ''Entrees'' 2) = Raises (KeyError ''name'')"
proof -
  have 1: "fst (reextract_category_items (\<lambda>s n. False) exact_prim items_reply [''img1'', ''img2'']
          complete_run ''Appetizers'' 1) = Raises (KeyError ''name'')" by code_simp
  have 2: "fst (reextract_category_items (\<lambda>s n. False) exact_prim items_reply [''img1'', ''img2'']
          complete_run ''Desserts'' 1) = Raises (KeyError ''name'')" by code_simp
  have 3: "fst (reextract_category_items (\<lambda>s n. False) exact_prim items_reply [''img1'', ''img2'']
          complete_run ''Appetizers'' 3) = Raises (HTTPException 404 ''Page 3 not found'')"
    by code_simp
  have 4: "fst (reextract_category_addons (\<lambda>s n. False) exact_prim addons_reply [''img1'', ''img2'']
          complete_run ''Entrees'' 2) = Raises (KeyError ''name'')" by code_simp
  from 1 2 3 4 show ?thesis by (intro conjI)
qed

theorem reextraction_lookup_reads_name_witness:
  "fst (reextract_category_items (\<lambda>s n. False) exact_prim items_reply [''img1'', ''img2'']
          complete_run ''Desserts'' 1) \<noteq> Raises (category_not_found ''Desserts'' 1) \<and>
   getitem appetizers ''name_raw'' = Inr (JStr ''Appetizers'') \<and>
   getitem appetizers ''name'' = Inl (KeyError ''name'') \<and>
   complete_run PHASE2_INPUT_REVIEWED = Some (JsonText two_page_categories)"
proof -
  from reextraction_lookup_reads_name
  have "fst (reextract_category_items (\<lambda>s n. False) exact_prim items_reply [''img1'', ''img2'']
          complete_run ''Desserts'' 1) = Raises (KeyError ''name'')"
    by simp
  then have "fst (reextract_category_items (\<lambda>s n. False) exact_prim items_reply [''img1'', ''img2'']
          complete_run ''Desserts'' 1) \<noteq> Raises (category_not_found ''Desserts'' 1)"
    by (simp add: category_not_found_def)
  moreover have "complete_run PHASE2_INPUT_REVIEWED = Some (JsonText two_page_categories)"
    by code_simp
  ultimately show ?thesis by (simp add: appetizers_def)
qed

lemma load_json_file_Inr:
  "load_json_file store file_path error_message = Inr data \<longleftrightarrow>
   store file_path = Some (JsonText data)"
proof (cases "store file_path")
  case None
  then show ?thesis by (simp add: load_json_file_def)
next
  case (Some content)
  then show ?thesis by (cases content) (simp_all add: load_json_file_def)
qed

lemma eq_str_iff: "eq_str j t \<longleftrightarrow> j = JStr t"
  by (cases j) auto

lemma target_page_found:
  "target_page float_eq page_number pages = Inr page \<Longrightarrow> truthy page \<Longrightarrow>
   page \<in> set pages \<and> (\<exists>n. getitem page ''page_number'' = Inr n \<and> eq_int float_eq n page_number)"
proof (induction pages)
  case Nil
  then show ?case by simp
next
  case (Cons p pages)
  then show ?case by (auto split: sum.splits if_splits)
qed

lemma target_category_found:
  "target_category category_name cats = Inr category \<Longrightarrow> truthy category \<Longrightarrow>
   category \<in> set cats \<and> getitem category ''name'' = Inr (JStr category_name)"
proof (induction cats)
  case Nil
  then show ?case by simp
next
  case (Cons c cats)
  then show ?case by (auto simp: eq_str_iff split: sum.splits if_splits)
qed

lemma locate_category_Inr:
  assumes "locate_category float_eq reviewed_data category_name page_number = Inr category"
  shows "\<exists>pages_value pages page data categories cats.
           getitem reviewed_data ''pages'' = Inr pages_value \<and> iterate pages_value = Inr pages \<and>
           page \<in> set pages \<and>
           (\<exists>n. getitem page ''page_number'' = Inr n \<and> eq_int float_eq n page_number) \<and>
           getitem page ''data'' = Inr data \<and> getitem data ''categories'' = Inr categories \<and>
           iterate categories = Inr cats \<and>
           category \<in> set cats \<and> getitem category ''name'' = Inr (JStr category_name)"
proof -
  from assms obtain pages_value pages page where
    pv: "getitem reviewed_data ''pages'' = Inr pages_value" and
    ps: "iterate pages_value = Inr pages" and
    tp: "target_page float_eq page_number pages = Inr page" and
    tr: "truthy page"
    by (auto simp: locate_category_def split: sum.splits if_splits)
  from assms pv ps tp tr obtain data categories cats where
    d: "getitem page ''data'' = Inr data" and
    c: "getitem data ''categories'' = Inr categories" and
    cs: "iterate categories = Inr cats" and
    tc: "target_category category_name cats = Inr category" and
    trc: "truthy category"
    by (auto simp: locate_category_def split: sum.splits if_splits)
  from target_page_found [OF tp tr] target_category_found [OF tc trc] pv ps d c cs
  show ?thesis by blast
qed

text \<open>
  Claim C9 (partial re-extraction frame). \<open>reextract_category_items\<close> leaves the file
  store as it found it, whatever it returns or raises. When it returns, the reviewed
  artifact has a page of the requested number with a category whose \<^verbatim>\<open>name\<close> is the
  requested one; one request was made, for that category with the image of the page,
  and answered with a JSON object that the lenient Stage-2 schema validates; the
  response body holds that one validated object, with the declared fields of the
  schema, under \<^verbatim>\<open>category_items\<close>.
\<close>

theorem reextraction_returns_unit_and_writes_nothing:
  "snd (reextract_category_items float_eq prim llm images store category_name page_number) = store \<and>
   (fst (reextract_category_items float_eq prim llm images store category_name page_number)
      = Returns body \<longrightarrow>
    (\<exists>reviewed_data pages_value pages page data categories cats category img restaurant_name
       obj validated fields.
       store PHASE2_INPUT_REVIEWED = Some (JsonText reviewed_data) \<and>
       getitem reviewed_data ''pages'' = Inr pages_value \<and> iterate pages_value = Inr pages \<and>
       page \<in> set pages \<and>
       (\<exists>n. getitem page ''page_number'' = Inr n \<and> eq_int float_eq n page_number) \<and>
       getitem page ''data'' = Inr data \<and> getitem data ''categories'' = Inr categories \<and>
       iterate categories = Inr cats \<and>
       category \<in> set cats \<and> getitem category ''name'' = Inr (JStr category_name) \<and>
       getindex images (page_number - 1) = Inr img \<and>
       getitem reviewed_data ''restaurant_name'' = Inr restaurant_name \<and>
       llm \<lparr>prompt = Prompt ''phase2.j2''
                         [(''restaurant_name'', restaurant_name),
                          (''page_number'', JInt page_number), (''categories'', category)],
            image = img, response_format = CategorywithItems Backend_utils_model\<rparr>
         = Inr (JsonText obj) \<and>
       model_validate prim (CategorywithItems Backend_utils_model) obj = Inr validated \<and>
       validated = JObj fields \<and>
       map fst fields = declared (CategorywithItems Backend_utils_model) \<and>
       body = JObj [(''success'', JBool True),
                    (''message'',
                     JStr (''Re-extracted items for category '' @ [CHR 0x27] @ category_name @
                           [CHR 0x27])),
                    (''category_items'', validated)]))"
proof (intro conjI impI)
  show "snd (reextract_category_items float_eq prim llm images store category_name page_number)
          = store"
    by (simp add: reextract_category_items_def split: sum.splits)
next
  assume r: "fst (reextract_category_items float_eq prim llm images store category_name
                    page_number) = Returns body"
  let ?S = "CategorywithItems Backend_utils_model"
  from r obtain reviewed_data category where
    load: "load_json_file store PHASE2_INPUT_REVIEWED ''No reviewed categories found.''
             = Inr reviewed_data"
    and loc: "locate_category float_eq reviewed_data category_name page_number = Inr category"
    and unit: "reextract_items prim llm images reviewed_data category_name page_number category
                 = Inr body"
    by (auto simp: reextract_category_items_def split: sum.splits)
  from load have stored: "store PHASE2_INPUT_REVIEWED = Some (JsonText reviewed_data)"
    by (simp add: load_json_file_Inr)
  from unit obtain img restaurant_name raw validated where
    img: "getindex images (page_number - 1) = Inr img"
    and name: "getitem reviewed_data ''restaurant_name'' = Inr restaurant_name"
    and reply: "llm (call_openrouter
                       (extractor_phase2_prompt restaurant_name (JInt page_number) category)
                       img ?S) = Inr raw"
    and dec: "decode prim ?S raw = Inr validated"
    and body: "body = JObj [(''success'', JBool True),
                    (''message'',
                     JStr (''Re-extracted items for category '' @ [CHR 0x27] @ category_name @
                           [CHR 0x27])),
                    (''category_items'', validated)]"
    by (auto simp: reextract_items_def split: sum.splits)
  from dec obtain obj where raw: "raw = JsonText obj"
    and val: "model_validate prim ?S obj = Inr validated"
    by (auto simp: decode_Inr)
  from reply raw have call: "llm \<lparr>prompt = Prompt ''phase2.j2''
                         [(''restaurant_name'', restaurant_name),
                          (''page_number'', JInt page_number), (''categories'', category)],
            image = img, response_format = ?S\<rparr> = Inr (JsonText obj)"
    by (simp add: call_openrouter_def extractor_phase2_prompt_def)
  from model_validate_keys [OF val] obtain fields where
    f: "validated = JObj fields" "map fst fields = declared ?S" by blast
  from locate_category_Inr [OF loc] obtain pages_value pages page data categories cats where
    l: "getitem reviewed_data ''pages'' = Inr pages_value" "iterate pages_value = Inr pages"
       "page \<in> set pages"
       "\<exists>n. getitem page ''page_number'' = Inr n \<and> eq_int float_eq n page_number"
       "getitem page ''data'' = Inr data" "getitem data ''categories'' = Inr categories"
       "iterate categories = Inr cats" "category \<in> set cats"
       "getitem category ''name'' = Inr (JStr category_name)"
    by blast
  from stored l img name call val f body
  show "\<exists>reviewed_data pages_value pages page data categories cats category img restaurant_name
       obj validated fields.
       store PHASE2_INPUT_REVIEWED = Some (JsonText reviewed_data) \<and>
       getitem reviewed_data ''pages'' = Inr pages_value \<and> iterate pages_value = Inr pages \<and>
       page \<in> set pages \<and>
       (\<exists>n. getitem page ''page_number'' = Inr n \<and> eq_int float_eq n page_number) \<and>
       getitem page ''data'' = Inr data \<and> getitem data ''categories'' = Inr categories \<and>
       iterate categories = Inr cats \<and>
       category \<in> set cats \<and> getitem category ''name'' = Inr (JStr category_name) \<and>
       getindex images (page_number - 1) = Inr img \<and>
       getitem reviewed_data ''restaurant_name'' = Inr restaurant_name \<and>
       llm \<lparr>prompt = Prompt ''phase2.j2''
                         [(''restaurant_name'', restaurant_name),
                          (''page_number'', JInt page_number), (''categories'', category)],
            image = img, response_format = CategorywithItems Backend_utils_model\<rparr>
         = Inr (JsonText obj) \<and>
       model_validate prim (CategorywithItems Backend_utils_model) obj = Inr validated \<and>
       validated = JObj fields \<and>
       map fst fields = declared (CategorywithItems Backend_utils_model) \<and>
       body = JObj [(''success'', JBool True),
                    (''message'',
                     JStr (''Re-extracted items for category '' @ [CHR 0x27] @ category_name @
                           [CHR 0x27])),
                    (''category_items'', validated)]"
    by blast
qed

theorem reextraction_returns_unit_and_writes_nothing_witness:
  "snd (reextract_category_items (\<lambda>s n. False) exact_prim items_reply [''img1'', ''img2'']
          named_files ''Entrees'' 2) = named_files \<and>
   fst (reextract_category_items (\<lambda>s n. False) exact_prim items_reply [''img1'', ''img2'']
          named_files ''Entrees'' 2) =
     Returns (JObj [(''success'', JBool True),
                    (''message'', JStr (''Re-extracted items for category '' @ [CHR 0x27] @
                                        ''Entrees'' @ [CHR 0x27])),
                    (''category_items'', items_validated ''Dishes'')]) \<and>
   model_validate exact_prim (CategorywithItems Backend_utils_model)
       (JObj [(''name_raw'', JStr ''Dishes''), (''note'', JStr ''none'')]) =
     Inr (items_validated ''Dishes'')"
proof -
  let ?R = "reextract_category_items (\<lambda>s n. False) exact_prim items_reply [''img1'', ''img2'']
              named_files ''Entrees'' 2"
  let ?body = "JObj [(''success'', JBool True),
                    (''message'', JStr (''Re-extracted items for category '' @ [CHR 0x27] @
                                        ''Entrees'' @ [CHR 0x27])),
                    (''category_items'', items_validated ''Dishes'')]"
  note frame = reextraction_returns_unit_and_writes_nothing
                 [of "\<lambda>s n. False" exact_prim items_reply "[''img1'', ''img2'']" named_files
                     "''Entrees''" 2 ?body]
  have out: "fst ?R = Returns ?body" by code_simp
  from frame have store: "snd ?R = named_files" by (rule conjunct1)
  from frame out obtain request obj validated where
    reply: "items_reply request = Inr (JsonText obj)"
    and val: "model_validate exact_prim (CategorywithItems Backend_utils_model) obj = Inr validated"
    and body: "?body = JObj [(''success'', JBool True),
                    (''message'', JStr (''Re-extracted items for category '' @ [CHR 0x27] @
                                        ''Entrees'' @ [CHR 0x27])),
                    (''category_items'', validated)]"
    by blast
  from reply have "obj = JObj [(''name_raw'', JStr ''Dishes''), (''note'', JStr ''none'')]"
    by (simp add: items_reply_def)
  moreover from body have "validated = items_validated ''Dishes''" by simp
  ultimately have "model_validate exact_prim (CategorywithItems Backend_utils_model)
       (JObj [(''name_raw'', JStr ''Dishes''), (''note'', JStr ''none'')]) =
     Inr (items_validated ''Dishes'')"
    using val by simp
  with store out show ?thesis by (intro conjI)
qed

end
